theory Spec2Isabelle
  imports Complex_Main "HOL-Library.Log_Nat"
begin

section \<open>Image preprocessor (processImage)\<close>

text \<open>
  The outcome of loading the \<open>img\<close> element: \<open>onload\<close> fires with the element's
  \<open>width\<close> and \<open>height\<close> (unsigned integers), or \<open>onerror\<close> fires.
\<close>

datatype image_load = Loaded nat nat | LoadError

text \<open>
  What the promise resolves with: the PNG data URL of the off-screen canvas, of which the
  model keeps the raster's pixel dimensions, or (fallback) the original URL.
\<close>

datatype processed = DataURL nat nat | OriginalURL

text \<open>
  JavaScript numbers are IEEE 754 doubles: the result of a division or a multiplication is
  the exact result rounded to the nearest number with 53 significant bits, a tie going to
  the even one. \<open>expo x\<close> is the binary exponent of a positive \<open>x\<close>, the integer \<open>e\<close>
  with \<open>2 ^ e \<le> x < 2 ^ (e + 1)\<close>. The numbers of the preprocessor are zero or lie
  between \<open>2 ^ -32\<close> and \<open>2 ^ 33\<close>, far from overflow and from the subnormal range, so
  the exponent is left unbounded. Whole numbers below \<open>2 ^ 53\<close> are doubles as they are.
\<close>

definition expo :: "real \<Rightarrow> int" where
  "expo x = (if 1 \<le> x then bitlen \<lfloor>x\<rfloor> - 1 else - bitlen (\<lceil>1 / x\<rceil> - 1))"

definition roundEven :: "real \<Rightarrow> int" where
  "roundEven y =
     (let f = \<lfloor>y\<rfloor>; r = y - of_int f
      in if r < 1 / 2 then f else if 1 / 2 < r then f + 1 else if even f then f else f + 1)"

definition roundDouble :: "real \<Rightarrow> real" where
  "roundDouble x =
     (if x = 0 then 0
      else sgn x * of_int (roundEven (\<bar>x\<bar> / power_int 2 (expo \<bar>x\<bar> - 52)))
             * power_int 2 (expo \<bar>x\<bar> - 52))"

text \<open>
  \<open>newWidth\<close> and \<open>newHeight\<close> as computed by lines 93--105: the quotient is rounded,
  then its product with the other dimension is rounded. The divisor is positive on the
  branch that divides.
\<close>

definition newSize :: "nat \<Rightarrow> nat \<Rightarrow> nat \<Rightarrow> real \<times> real" where
  "newSize w h maxSize =
     (if max w h > maxSize then
        (if h \<ge> w
         then (roundDouble (roundDouble (real maxSize / real h) * real w), real maxSize)
         else (real maxSize, roundDouble (roundDouble (real maxSize / real w) * real h)))
      else (real w, real h))"

text \<open>
  Assigning a number to \<open>canvas.width\<close> or \<open>canvas.height\<close> converts it to an unsigned
  integer, dropping the fractional part.
\<close>

definition canvasDim :: "real \<Rightarrow> nat" where
  "canvasDim x = nat \<lfloor>x\<rfloor>"

text \<open>
  \<open>processImage\<close>: the result and the lines written to the console. \<open>maxSize\<close> is the
  pixel bound; its default is 2048.
\<close>

definition processImage :: "image_load \<Rightarrow> nat \<Rightarrow> processed \<times> string list" where
  "processImage ld maxSize =
     (case ld of
        Loaded w h \<Rightarrow>
          (let (newWidth, newHeight) = newSize w h maxSize
           in (DataURL (canvasDim newWidth) (canvasDim newHeight), []))
      | LoadError \<Rightarrow> (OriginalURL, [''Error loading image'']))"

definition processImage_default :: "image_load \<Rightarrow> processed \<times> string list" where
  "processImage_default ld = processImage ld 2048"

section \<open>JavaScript numbers\<close>

text \<open>
  A scale factor or coordinate as far as the editor's arithmetic can produce it: a finite
  value, an infinity, or NaN. Division by zero does not raise. These numbers are never
  truncated to whole pixels, and their finite values are idealised as reals.
\<close>

datatype jsnum = Fin real | PosInfinity | NegInfinity | NaN

definition jsdiv :: "real \<Rightarrow> real \<Rightarrow> jsnum" where
  "jsdiv a b =
     (if b = 0 then (if a = 0 then NaN else if 0 < a then PosInfinity else NegInfinity)
      else Fin (a / b))"

text \<open>\<open>Math.min\<close> of two numbers.\<close>

fun jsmin :: "jsnum \<Rightarrow> jsnum \<Rightarrow> jsnum" where
  "jsmin NaN y = NaN"
| "jsmin x NaN = NaN"
| "jsmin NegInfinity y = NegInfinity"
| "jsmin x NegInfinity = NegInfinity"
| "jsmin PosInfinity y = y"
| "jsmin x PosInfinity = x"
| "jsmin (Fin a) (Fin b) = Fin (min a b)"

section \<open>Scene objects\<close>

type_synonym oid = nat

text \<open>
  The class of a scene object as far as \<open>obj instanceof fabric.Image\<close> can tell: the
  object built by \<open>fabric.Image.fromURL\<close>, or the group built by
  \<open>fabric.util.groupSVGElements\<close> from a parsed vector graphic. A placed graphic is a
  vector group and never an instance of \<open>fabric.Image\<close>: the editor itself tells the base
  image from the stickers by this test alone.
\<close>

datatype fclass = FabricImage | FabricGroup

datatype image_filter = Brightness real | Contrast real | Saturation real | HueRotation real

record fobject =
  klass :: fclass
  owidth :: real
  oheight :: real
  oleft :: real
  otop :: real
  scaleX :: jsnum
  scaleY :: jsnum
  originX :: string
  originY :: string
  selectable :: bool
  evented :: bool
  cornerSize :: real
  cornerColor :: string
  cornerStrokeColor :: string
  borderColor :: string
  transparentCorners :: bool
  filters :: "image_filter list"
  applied :: "image_filter list"

text \<open>
  Modelled from the spec: the scene-graph library (fabric) is an external collaborator
  and not part of the repository. A new object has the library's default attributes:
  unscaled, origin at its top-left corner, interactive, with an empty filter chain.
\<close>

definition newObject :: "fclass \<Rightarrow> real \<Rightarrow> real \<Rightarrow> fobject" where
  "newObject k w h =
     \<lparr>klass = k, owidth = w, oheight = h, oleft = 0, otop = 0,
      scaleX = Fin 1, scaleY = Fin 1, originX = ''left'', originY = ''top'',
      selectable = True, evented = True, cornerSize = 13,
      cornerColor = ''rgb(178,204,255)'', cornerStrokeColor = [],
      borderColor = ''rgb(178,204,255)'', transparentCorners = True,
      filters = [], applied = []\<rparr>"

text \<open>
  Modelled from the spec: the library's filter application is not part of the repository.
  The spec (4.4) calls a filter with a zero value neutral and the all-zero chain visually
  unfiltered: \<open>applyFilters\<close> bakes into the image exactly the filters of the chain that are
  not neutral, recorded in \<open>applied\<close>. Two chains are equivalent when they bake the same
  filters.
\<close>

fun isNeutralState :: "image_filter \<Rightarrow> bool" where
  "isNeutralState (Brightness b) = (b = 0)"
| "isNeutralState (Contrast c) = (c = 0)"
| "isNeutralState (Saturation s) = (s = 0)"
| "isNeutralState (HueRotation r) = (r = 0)"

definition effective :: "image_filter list \<Rightarrow> image_filter list" where
  "effective fs = filter (\<lambda>f. \<not> isNeutralState f) fs"

definition applyFilters :: "fobject \<Rightarrow> fobject" where
  "applyFilters ob = ob\<lparr>applied := effective (filters ob)\<rparr>"

definition chain_equiv :: "image_filter list \<Rightarrow> image_filter list \<Rightarrow> bool" where
  "chain_equiv fs gs = (effective fs = effective gs)"

section \<open>The scene surface\<close>

text \<open>
  The canvas holds references to scene objects: its z-ordered element list (back first),
  the active object, the dedicated background image, and the custom property
  \<open>backgroundObject\<close> that the module augmentation (lines 49--53) declares.
\<close>

record canvas =
  cwidth :: nat
  cheight :: nat
  backgroundColor :: string
  objects :: "oid list"
  activeObject :: "oid option"
  backgroundImage :: "oid option"
  backgroundObject :: "oid option"

text \<open>
  Modelled from the spec: the surface primitives of 4.2 (add element, remove element, set
  active element, reorder to back, query all elements, query current selection) belong to
  the library. \<open>add\<close> appends on top; \<open>remove\<close> takes an element that is present off the
  list and, when it is the active one, discards the selection; \<open>sendToBack\<close> takes the
  element off the list and puts it at the very back.
\<close>

definition canvas_add :: "oid \<Rightarrow> canvas \<Rightarrow> canvas" where
  "canvas_add ob c = c\<lparr>objects := objects c @ [ob]\<rparr>"

definition canvas_remove :: "oid \<Rightarrow> canvas \<Rightarrow> canvas" where
  "canvas_remove ob c =
     (if ob \<in> set (objects c)
      then c\<lparr>objects := remove1 ob (objects c),
             activeObject := (if activeObject c = Some ob then None else activeObject c)\<rparr>
      else c)"

definition sendToBack :: "oid \<Rightarrow> canvas \<Rightarrow> canvas" where
  "sendToBack ob c = c\<lparr>objects := ob # remove1 ob (objects c)\<rparr>"

definition setActiveObject :: "oid \<Rightarrow> canvas \<Rightarrow> canvas" where
  "setActiveObject ob c = c\<lparr>activeObject := Some ob\<rparr>"

definition discardActiveObject :: "canvas \<Rightarrow> canvas" where
  "discardActiveObject c = c\<lparr>activeObject := None\<rparr>"

definition setBackgroundImage :: "oid \<Rightarrow> canvas \<Rightarrow> canvas" where
  "setBackgroundImage ob c = c\<lparr>backgroundImage := Some ob\<rparr>"

definition getObjects :: "canvas \<Rightarrow> oid list" where
  "getObjects c = objects c"

definition getActiveObject :: "canvas \<Rightarrow> oid option" where
  "getActiveObject c = activeObject c"

section \<open>The editor component (VanEditor)\<close>

record tone =
  brightness :: real
  contrast :: real
  saturation :: real
  hue :: real

text \<open>
  The component's state: the canvas reference (\<open>null\<close> before initialisation), the store
  of scene objects that the references point into, the next fresh reference, the React
  state (\<open>filters\<close>, \<open>selectedSticker\<close>, \<open>activeTab\<close>) and the lines written with
  \<open>console.error\<close>.
\<close>

record editor =
  canvasRef :: "canvas option"
  heap :: "oid \<Rightarrow> fobject option"
  next_oid :: oid
  filterState :: tone
  selectedSticker :: bool
  activeTab :: string
  console :: "string list"

definition noFilters :: tone where
  "noFilters = \<lparr>brightness = 0, contrast = 0, saturation = 0, hue = 0\<rparr>"

definition initialState :: editor where
  "initialState =
     \<lparr>canvasRef = None, heap = (\<lambda>i. None), next_oid = 0, filterState = noFilters,
      selectedSticker = False, activeTab = ''stickers'', console = []\<rparr>"

text \<open>The tab effect (lines 61--65).\<close>

definition tabEffect :: "editor \<Rightarrow> editor" where
  "tabEffect s = (if activeTab s = ''stickers'' then s\<lparr>activeTab := ''edit''\<rparr> else s)"

subsection \<open>Initialisation (initCanvas)\<close>

definition newCanvas :: canvas where
  "newCanvas =
     \<lparr>cwidth = 1200, cheight = 960, backgroundColor = ''#f5f5f5'', objects = [],
      activeObject = None, backgroundImage = None, backgroundObject = None\<rparr>"

text \<open>
  The callback of \<open>fabric.Image.fromURL\<close> (lines 141--165), given the width and height of
  the image the library loaded from the preprocessed URL.
\<close>

definition initCanvas_fromURL :: "nat \<Rightarrow> nat \<Rightarrow> editor \<Rightarrow> editor" where
  "initCanvas_fromURL iw ih s =
     (case canvasRef s of
        None \<Rightarrow> s
      | Some cv \<Rightarrow>
          (let img = next_oid s;
               scale = jsmin (jsdiv (real (cwidth cv)) (real iw))
                             (jsdiv (real (cheight cv)) (real ih));
               ob = (newObject FabricImage (real iw) (real ih))
                      \<lparr>scaleX := scale, scaleY := scale,
                       originX := ''center'', originY := ''center'',
                       oleft := real (cwidth cv) / 2, otop := real (cheight cv) / 2,
                       selectable := False, evented := False\<rparr>
           in s\<lparr>heap := (heap s)(img \<mapsto> ob), next_oid := Suc img,
                canvasRef := Some (sendToBack img (setBackgroundImage img (canvas_add img cv)))\<rparr>))"

text \<open>
  The surface once the base image has loaded: the canvas is created and stored in
  \<open>canvasRef\<close>, then the callback runs.
\<close>

definition initCanvas :: "nat \<Rightarrow> nat \<Rightarrow> editor" where
  "initCanvas iw ih =
     initCanvas_fromURL iw ih ((tabEffect initialState)\<lparr>canvasRef := Some newCanvas\<rparr>)"

subsection \<open>Tone adjustment (the filter effect, lines 215--238)\<close>

definition is_Image :: "(oid \<Rightarrow> fobject option) \<Rightarrow> oid \<Rightarrow> bool" where
  "is_Image h i = (case h i of None \<Rightarrow> False | Some ob \<Rightarrow> klass ob = FabricImage)"

definition filterEffect :: "editor \<Rightarrow> editor" where
  "filterEffect s =
     (case canvasRef s of
        None \<Rightarrow> s
      | Some cv \<Rightarrow>
          (case find (is_Image (heap s)) (getObjects cv) of
             None \<Rightarrow> s
           | Some bgImage \<Rightarrow>
               (case heap s bgImage of
                  None \<Rightarrow> s
                | Some ob \<Rightarrow>
                    (let cleared = ob\<lparr>filters := []\<rparr>;
                         pushed = cleared\<lparr>filters := filters cleared @
                           [Brightness (brightness (filterState s)),
                            Contrast (contrast (filterState s)),
                            Saturation (saturation (filterState s)),
                            HueRotation (hue (filterState s))]\<rparr>
                     in s\<lparr>heap := (heap s)(bgImage \<mapsto> applyFilters pushed)\<rparr>))))"

datatype filter_type = TBrightness | TContrast | TSaturation | THue

fun setFilter :: "filter_type \<Rightarrow> real \<Rightarrow> tone \<Rightarrow> tone" where
  "setFilter TBrightness v t = t\<lparr>brightness := v\<rparr>"
| "setFilter TContrast v t = t\<lparr>contrast := v\<rparr>"
| "setFilter TSaturation v t = t\<lparr>saturation := v\<rparr>"
| "setFilter THue v t = t\<lparr>hue := v\<rparr>"

text \<open>
  \<open>handleFilterChange\<close> and \<open>resetFilters\<close> only set the \<open>filters\<close> state (\<open>v\<close> is
  \<open>value[0]\<close> of the slider's one-element array); the new state object makes the
  effect run.
\<close>

definition handleFilterChange :: "filter_type \<Rightarrow> real \<Rightarrow> editor \<Rightarrow> editor" where
  "handleFilterChange ty v s = filterEffect (s\<lparr>filterState := setFilter ty v (filterState s)\<rparr>)"

definition resetFilters :: "editor \<Rightarrow> editor" where
  "resetFilters s = filterEffect (s\<lparr>filterState := noFilters\<rparr>)"

subsection \<open>Placement (addSticker, lines 241--277)\<close>

text \<open>
  The outcome of \<open>fabric.loadSVGFromURL\<close>: the parsed graphic with its width and height,
  or a failed load, on which the library calls the same callback with no elements (the
  editor passes no other callback).
\<close>

datatype svg_load = SvgLoaded real real | SvgFailed

text \<open>
  Modelled from the spec: \<open>groupSVGElements\<close> belongs to the library; it yields the
  renderable group of 4.3, with the size of the parsed graphic. Given no elements, as
  after a failed load, the library builds an empty group, of width and height zero.
\<close>

definition groupSVGElements :: "svg_load \<Rightarrow> fobject" where
  "groupSVGElements r =
     (case r of
        SvgLoaded w h \<Rightarrow> newObject FabricGroup w h
      | SvgFailed \<Rightarrow> newObject FabricGroup 0 0)"

definition addSticker_loaded :: "svg_load \<Rightarrow> editor \<Rightarrow> editor" where
  "addSticker_loaded r s =
     (let svgGroup = groupSVGElements r;
          canvasWidth = (case canvasRef s of None \<Rightarrow> 1200
                         | Some cv \<Rightarrow> if cwidth cv = 0 then 1200 else cwidth cv);
          canvasHeight = (case canvasRef s of None \<Rightarrow> 960
                          | Some cv \<Rightarrow> if cheight cv = 0 then 960 else cheight cv);
          scaleFactor = jsdiv 100 (owidth svgGroup);
          ob = svgGroup\<lparr>oleft := real canvasWidth / 2, otop := real canvasHeight / 2,
                 scaleX := scaleFactor, scaleY := scaleFactor,
                 cornerSize := 10, cornerColor := ''white'', cornerStrokeColor := ''#aaa'',
                 borderColor := ''#aaa'', transparentCorners := False,
                 originX := ''center'', originY := ''center''\<rparr>;
          g = next_oid s;
          s1 = s\<lparr>heap := (heap s)(g \<mapsto> ob), next_oid := Suc g\<rparr>;
          s2 = (case canvasRef s1 of
                  None \<Rightarrow> s1
                | Some cv \<Rightarrow> s1\<lparr>canvasRef := Some (setActiveObject g (canvas_add g cv))\<rparr>)
      in s2\<lparr>selectedSticker := True, activeTab := ''edit''\<rparr>)"

definition addSticker :: "svg_load \<Rightarrow> editor \<Rightarrow> editor" where
  "addSticker r s = (case canvasRef s of None \<Rightarrow> s | Some cv \<Rightarrow> addSticker_loaded r s)"

subsection \<open>Deletion and reordering\<close>

definition deleteSelectedSticker :: "editor \<Rightarrow> editor" where
  "deleteSelectedSticker s =
     (case canvasRef s of
        None \<Rightarrow> s
      | Some cv \<Rightarrow>
          (case getActiveObject cv of
             None \<Rightarrow> s
           | Some act \<Rightarrow>
               if Some act \<noteq> backgroundObject cv
               then s\<lparr>canvasRef := Some (canvas_remove act cv), selectedSticker := False\<rparr>
               else s))"

definition handleKeyDown :: "string \<Rightarrow> editor \<Rightarrow> editor" where
  "handleKeyDown key s =
     (case canvasRef s of
        None \<Rightarrow> s
      | Some cv \<Rightarrow>
          if key = ''Delete'' \<or> key = ''Backspace'' then
            (case getActiveObject cv of
               None \<Rightarrow> s
             | Some act \<Rightarrow>
                 if Some act \<noteq> backgroundObject cv
                 then s\<lparr>canvasRef := Some (canvas_remove act cv), selectedSticker := False\<rparr>
                 else s)
          else s)"

definition sendStickerToBack :: "editor \<Rightarrow> editor" where
  "sendStickerToBack s =
     (case canvasRef s of
        None \<Rightarrow> s
      | Some cv \<Rightarrow>
          (case getActiveObject cv of
             None \<Rightarrow> s
           | Some act \<Rightarrow>
               if Some act \<noteq> backgroundObject cv then
                 (let cv1 = sendToBack act cv
                  in case find (is_Image (heap s)) (getObjects cv1) of
                       None \<Rightarrow> s\<lparr>canvasRef := Some cv1\<rparr>
                     | Some bgImage \<Rightarrow> s\<lparr>canvasRef := Some (sendToBack bgImage cv1)\<rparr>)
               else s))"

subsection \<open>Selection events (lines 171--173)\<close>

text \<open>
  The library selects the element the user points at only when it is on the surface,
  selectable and evented; a changed selection fires \<open>selection:created\<close> or
  \<open>selection:updated\<close>, a discarded one \<open>selection:cleared\<close>, whose handlers set
  \<open>selectedSticker\<close>.
\<close>

definition userSelect :: "oid \<Rightarrow> editor \<Rightarrow> editor" where
  "userSelect i s =
     (case canvasRef s of
        None \<Rightarrow> s
      | Some cv \<Rightarrow>
          (case heap s i of
             None \<Rightarrow> s
           | Some ob \<Rightarrow>
               if i \<in> set (objects cv) \<and> selectable ob \<and> evented ob
                  \<and> activeObject cv \<noteq> Some i
               then s\<lparr>canvasRef := Some (setActiveObject i cv), selectedSticker := True\<rparr>
               else s))"

definition userDeselect :: "editor \<Rightarrow> editor" where
  "userDeselect s =
     (case canvasRef s of
        None \<Rightarrow> s
      | Some cv \<Rightarrow>
          (case activeObject cv of
             None \<Rightarrow> s
           | Some act \<Rightarrow>
               s\<lparr>canvasRef := Some (discardActiveObject cv), selectedSticker := False\<rparr>))"

subsection \<open>Editing sessions\<close>

datatype action =
    AddSticker svg_load
  | FilterChange filter_type real
  | ResetFilters
  | DeleteClick
  | KeyDown string
  | SendToBackClick
  | UserSelect oid
  | UserDeselect

fun step :: "action \<Rightarrow> editor \<Rightarrow> editor" where
  "step (AddSticker r) s = addSticker r s"
| "step (FilterChange ty v) s = handleFilterChange ty v s"
| "step ResetFilters s = resetFilters s"
| "step DeleteClick s = deleteSelectedSticker s"
| "step (KeyDown key) s = handleKeyDown key s"
| "step SendToBackClick s = sendStickerToBack s"
| "step (UserSelect i) s = userSelect i s"
| "step UserDeselect s = userDeselect s"

text \<open>The state after a sequence of events, each handled to completion in turn.\<close>

definition run :: "action list \<Rightarrow> editor \<Rightarrow> editor" where
  "run acts s = fold step acts s"

section \<open>Well-formed editing states\<close>

text \<open>
  An overlay element is a scene object that is not an image; the base layer is the image
  that initialisation marks non-interactive.
\<close>

definition overlay :: "editor \<Rightarrow> oid \<Rightarrow> bool" where
  "overlay s i = (case heap s i of None \<Rightarrow> False | Some ob \<Rightarrow> klass ob \<noteq> FabricImage)"

definition baseObject :: "fobject option \<Rightarrow> bool" where
  "baseObject x =
     (case x of None \<Rightarrow> False
      | Some ob \<Rightarrow> klass ob = FabricImage \<and> \<not> selectable ob \<and> \<not> evented ob)"

text \<open>
  The shape every state of an editing session has: the canvas exists with its fixed size,
  the element at the back is the image registered as the background image, every other
  element is an overlay, references are distinct and allocated, and the active object, if
  any, is one of the overlays.
\<close>

definition wf :: "editor \<Rightarrow> bool" where
  "wf s =
     (case canvasRef s of
        None \<Rightarrow> False
      | Some cv \<Rightarrow>
          (case objects cv of
             [] \<Rightarrow> False
           | b # rest \<Rightarrow>
               backgroundImage cv = Some b \<and> backgroundObject cv = None \<and>
               baseObject (heap s b) \<and> list_all (overlay s) rest \<and>
               distinct (b # rest) \<and> list_all (\<lambda>i. i < next_oid s) (b # rest) \<and>
               (case activeObject cv of None \<Rightarrow> True | Some act \<Rightarrow> act \<in> set rest) \<and>
               cwidth cv = 1200 \<and> cheight cv = 960))"

text \<open>The image instance registered as the canvas's background image.\<close>

definition baseLayer :: "editor \<Rightarrow> oid option" where
  "baseLayer s = (case canvasRef s of None \<Rightarrow> None | Some cv \<Rightarrow> backgroundImage cv)"

text \<open>The chain the filter effect builds from the tone parameters.\<close>

definition filterChain :: "tone \<Rightarrow> image_filter list" where
  "filterChain t =
     [Brightness (brightness t), Contrast (contrast t), Saturation (saturation t),
      HueRotation (hue t)]"

text \<open>A sequence of placements whose graphics loaded, given by their sizes.\<close>

definition placements :: "(real \<times> real) list \<Rightarrow> action list" where
  "placements ps = map (\<lambda>(w, h). AddSticker (SvgLoaded w h)) ps"

text \<open>
  A call of \<open>canvas.setActiveObject\<close> from a program: unlike the pointer, it makes any
  object active.
\<close>

definition selectByProgram :: "oid \<Rightarrow> editor \<Rightarrow> editor" where
  "selectByProgram i s = s\<lparr>canvasRef := map_option (setActiveObject i) (canvasRef s)\<rparr>"

section \<open>Preprocessor properties\<close>

lemma expo_bounds:
  assumes "0 < x"
  shows "power_int 2 (expo x) \<le> x \<and> x < power_int 2 (expo x + 1)"
proof (cases "1 \<le> x")
  case True
  let ?n = "\<lfloor>x\<rfloor>"
  have n: "0 < ?n" using True by simp
  then have b1: "1 \<le> bitlen ?n" by (auto simp: bitlen_alt_def)
  from bitlen_bounds [OF n] have lo: "2 ^ nat (bitlen ?n - 1) \<le> ?n" and hi: "?n < 2 ^ nat (bitlen ?n)"
    by simp_all
  have e: "expo x = bitlen ?n - 1" using True by (simp add: expo_def)
  have "(2::real) ^ nat (bitlen ?n - 1) \<le> of_int ?n"
    using lo by (metis of_int_le_iff of_int_numeral of_int_power)
  also have "\<dots> \<le> x" by simp
  finally have 1: "power_int 2 (expo x) \<le> x" using b1 by (simp add: e power_int_def)
  have "?n + 1 \<le> 2 ^ nat (bitlen ?n)" using hi by simp
  then have "of_int (?n + 1) \<le> (2::real) ^ nat (bitlen ?n)"
    by (metis of_int_le_iff of_int_numeral of_int_power)
  moreover have "x < of_int (?n + 1)" by linarith
  ultimately have "x < (2::real) ^ nat (bitlen ?n)" by linarith
  then have 2: "x < power_int 2 (expo x + 1)" using b1 by (simp add: e power_int_def)
  from 1 2 show ?thesis ..
next
  case False
  then have x1: "x < 1" by simp
  let ?c = "\<lceil>1 / x\<rceil>"
  have y1: "1 < 1 / x" using assms x1 by simp
  then have c2: "2 \<le> ?c" by linarith
  then have n: "0 < ?c - 1" by simp
  then have b1: "1 \<le> bitlen (?c - 1)" by (auto simp: bitlen_alt_def)
  let ?k = "bitlen (?c - 1)"
  from bitlen_bounds [OF n] have lo: "2 ^ nat (?k - 1) \<le> ?c - 1" and hi: "?c - 1 < 2 ^ nat ?k"
    by simp_all
  have e: "expo x = - ?k" using False by (simp add: expo_def)
  have "?c \<le> 2 ^ nat ?k" using hi by simp
  then have "of_int ?c \<le> (2::real) ^ nat ?k"
    by (metis of_int_le_iff of_int_numeral of_int_power)
  moreover have "1 / x \<le> of_int ?c" by simp
  ultimately have "1 / x \<le> (2::real) ^ nat ?k" by linarith
  then have "1 \<le> 2 ^ nat ?k * x" using assms by (simp add: pos_divide_le_eq)
  then have "1 / 2 ^ nat ?k \<le> x" by (simp add: pos_divide_le_eq mult.commute)
  then have 1: "power_int 2 (expo x) \<le> x"
    using b1 by (simp add: e power_int_def inverse_eq_divide power_one_over)
  have "(2::real) ^ nat (?k - 1) \<le> of_int (?c - 1)"
    using lo by (metis of_int_le_iff of_int_numeral of_int_power)
  moreover have "of_int (?c - 1) < 1 / x" by linarith
  ultimately have lt: "(2::real) ^ nat (?k - 1) < 1 / x" by linarith
  then have "2 ^ nat (?k - 1) * x < 1" using assms by (simp add: pos_less_divide_eq)
  then have "x < 1 / 2 ^ nat (?k - 1)" by (simp add: pos_less_divide_eq mult.commute)
  moreover have "power_int (2::real) (expo x + 1) = 1 / 2 ^ nat (?k - 1)"
  proof (cases "?k = 1")
    case True
    then show ?thesis by (simp add: e)
  next
    case False
    with b1 have "expo x + 1 < 0" and "nat (- (expo x + 1)) = nat (?k - 1)" by (simp_all add: e)
    then show ?thesis by (simp add: power_int_def inverse_eq_divide power_one_over)
  qed
  ultimately have 2: "x < power_int 2 (expo x + 1)" by simp
  from 1 2 show ?thesis ..
qed

lemma roundEven_error: "\<bar>of_int (roundEven y) - y\<bar> \<le> 1 / 2"
proof -
  have "of_int \<lfloor>y\<rfloor> \<le> y" "y < of_int \<lfloor>y\<rfloor> + 1" by linarith+
  then show ?thesis by (auto simp: roundEven_def Let_def)
qed

lemma roundEven_nonneg: "0 \<le> y \<Longrightarrow> 0 \<le> roundEven y"
  by (auto simp: roundEven_def Let_def)

lemma roundDouble_nonneg: "0 \<le> x \<Longrightarrow> 0 \<le> roundDouble x"
  by (auto simp: roundDouble_def roundEven_nonneg power_int_def intro!: mult_nonneg_nonneg)

lemma roundDouble_error:
  assumes "0 \<le> x"
  shows "\<bar>roundDouble x - x\<bar> \<le> x / 2 ^ 53"
proof (cases "x = 0")
  case True
  then show ?thesis by (simp add: roundDouble_def)
next
  case False
  with assms have pos: "0 < x" by simp
  let ?e = "expo x"
  let ?p = "power_int (2::real) (?e - 52)"
  have pp: "0 < ?p" by (simp add: zero_less_power_int)
  have pe: "power_int (2::real) ?e = ?p * 2 ^ 52"
    by (simp add: power_int_diff)
  let ?y = "x / ?p"
  have d: "roundDouble x = of_int (roundEven ?y) * ?p"
    using pos by (simp add: roundDouble_def)
  have "roundDouble x - x = (of_int (roundEven ?y) - ?y) * ?p"
    using pp by (simp add: d algebra_simps)
  then have "\<bar>roundDouble x - x\<bar> = \<bar>of_int (roundEven ?y) - ?y\<bar> * ?p"
    using pp by (simp add: abs_mult)
  also have "\<dots> \<le> (1 / 2) * ?p"
    using roundEven_error [of ?y] pp by (intro mult_right_mono) simp_all
  also have "\<dots> = power_int 2 ?e / 2 ^ 53" by (simp add: pe)
  also have "\<dots> \<le> x / 2 ^ 53"
    using expo_bounds [OF pos] by (simp add: divide_right_mono)
  finally show ?thesis .
qed


lemma two_roundings:
  fixes x p z u :: real
  assumes "0 \<le> x" "0 \<le> u" "u \<le> 1" "\<bar>p - x\<bar> \<le> x * u" "\<bar>z - p\<bar> \<le> p * u"
  shows "\<bar>z - x\<bar> \<le> x * (3 * u)"
proof -
  have pb: "p \<le> x + x * u" using assms(4) by linarith
  have "p * u \<le> (x + x * u) * u" using pb assms(2) by (rule mult_right_mono)
  also have "\<dots> = x * u + (x * u) * u" by (simp add: algebra_simps)
  also have "(x * u) * u \<le> (x * u) * 1"
    using assms(1-3) by (intro mult_left_mono) simp_all
  finally have "p * u \<le> 2 * (x * u)" by (simp add: mult.commute)
  with assms(4,5) have "\<bar>z - x\<bar> \<le> 3 * (x * u)" by linarith
  then show ?thesis by (simp add: mult.assoc mult.left_commute)
qed

lemma scaled_error:
  assumes "a \<le> b" "0 < b" "m < 2 ^ 32"
  shows "0 \<le> roundDouble (roundDouble (real m / real b) * real a)"
    and "\<bar>roundDouble (roundDouble (real m / real b) * real a) - real m * real a / real b\<bar> < 1 / 2 ^ 19"
proof -
  let ?q = "real m / real b" and ?x = "real m * real a / real b"
  let ?q' = "roundDouble ?q"
  let ?p = "?q' * real a"
  define u :: real where "u = 1 / 2 ^ 53"
  have u: "0 \<le> u" "u \<le> 1" by (simp_all add: u_def)
  have q0: "0 \<le> ?q" by simp
  have q'0: "0 \<le> ?q'" using q0 by (rule roundDouble_nonneg)
  have p0: "0 \<le> ?p" using q'0 by simp
  show "0 \<le> roundDouble ?p" using p0 by (rule roundDouble_nonneg)
  have xm: "?x \<le> real m"
  proof -
    have "real m * real a \<le> real m * real b" using assms(1) by (simp add: mult_left_mono)
    then show ?thesis using assms(2) by (simp add: pos_divide_le_eq)
  qed
  have x0: "0 \<le> ?x" by simp
  have mb: "real m < 2 ^ 32"
    using assms(3) by (metis of_nat_less_iff of_nat_numeral of_nat_power)
  have e1: "\<bar>?q' - ?q\<bar> \<le> ?q * u" using roundDouble_error [OF q0] by (simp add: u_def)
  have "?p - ?x = (?q' - ?q) * real a" by (simp add: left_diff_distrib)
  then have "\<bar>?p - ?x\<bar> = \<bar>?q' - ?q\<bar> * real a" by (simp only: abs_mult abs_of_nat)
  also have "\<dots> \<le> (?q * u) * real a" using e1 by (intro mult_right_mono) simp_all
  also have "\<dots> = ?x * u" by simp
  finally have e2: "\<bar>?p - ?x\<bar> \<le> ?x * u" .
  have e3: "\<bar>roundDouble ?p - ?p\<bar> \<le> ?p * u" using roundDouble_error [OF p0] by (simp add: u_def)
  have "\<bar>roundDouble ?p - ?x\<bar> \<le> ?x * (3 * u)" using x0 u e2 e3 by (rule two_roundings)
  also have "\<dots> \<le> real m * (3 * u)" using xm u(1) by (intro mult_right_mono) simp_all
  also have "\<dots> < 1 / 2 ^ 19" using mb by (simp add: u_def)
  finally show "\<bar>roundDouble ?p - ?x\<bar> < 1 / 2 ^ 19" .
qed

lemma canvasDim_bounds:
  assumes "0 \<le> x"
  shows "real (canvasDim x) \<le> x \<and> x < real (canvasDim x) + 1"
proof -
  have "0 \<le> \<lfloor>x\<rfloor>" using assms by simp
  then have "real (canvasDim x) = of_int \<lfloor>x\<rfloor>" by (simp add: canvasDim_def)
  then show ?thesis by linarith
qed

lemma canvasDim_scaled:
  assumes "a \<le> b" "0 < b" "m < 2 ^ 32"
  shows "canvasDim (roundDouble (roundDouble (real m / real b) * real a)) \<le> m"
    and "\<bar>real (canvasDim (roundDouble (roundDouble (real m / real b) * real a)))
            - real m * real a / real b\<bar> < 1 + 1 / 2 ^ 19"
proof -
  let ?z = "roundDouble (roundDouble (real m / real b) * real a)"
  let ?x = "real m * real a / real b"
  note se = scaled_error [OF assms]
  have cb: "real (canvasDim ?z) \<le> ?z \<and> ?z < real (canvasDim ?z) + 1"
    using se(1) by (rule canvasDim_bounds)
  have xm: "?x \<le> real m"
  proof -
    have "real m * real a \<le> real m * real b" using assms(1) by (simp add: mult_left_mono)
    then show ?thesis using assms(2) by (simp add: pos_divide_le_eq)
  qed
  have small: "(1::real) / 2 ^ 19 < 1" by simp
  have "real (canvasDim ?z) < real m + 1" using cb se(2) xm small by linarith
  then show "canvasDim ?z \<le> m" by linarith
  show "\<bar>real (canvasDim ?z) - ?x\<bar> < 1 + 1 / 2 ^ 19" using cb se(2) by linarith
qed


lemma expo_unique:
  assumes "0 < x" "power_int 2 e \<le> x" "x < power_int 2 (e + 1)"
  shows "expo x = e"
proof (rule ccontr)
  assume ne: "expo x \<noteq> e"
  note b = expo_bounds [OF assms(1)]
  show False
  proof (cases "expo x < e")
    case True
    then have "power_int (2::real) (expo x + 1) \<le> power_int 2 e"
      by (intro power_int_increasing) simp_all
    with b assms(2) show False by linarith
  next
    case False
    with ne have "e + 1 \<le> expo x" by simp
    then have "power_int (2::real) (e + 1) \<le> power_int 2 (expo x)"
      by (intro power_int_increasing) simp_all
    with b assms(3) show False by linarith
  qed
qed

lemma roundEven_down:
  assumes "of_int f \<le> y" "y < of_int f + 1 / 2"
  shows "roundEven y = f"
proof -
  have "\<lfloor>y\<rfloor> = f" using assms by linarith
  then show ?thesis using assms by (simp add: roundEven_def Let_def)
qed

lemma roundEven_up:
  assumes "of_int f + 1 / 2 < y" "y < of_int f + 1"
  shows "roundEven y = f + 1"
proof -
  have "\<lfloor>y\<rfloor> = f" using assms by linarith
  then show ?thesis using assms by (simp add: roundEven_def Let_def)
qed

lemma roundDouble_down:
  assumes "0 < x" "power_int 2 e \<le> x" "x < power_int 2 (e + 1)"
    "of_int f \<le> x / power_int 2 (e - 52)" "x / power_int 2 (e - 52) < of_int f + 1 / 2"
  shows "roundDouble x = of_int f * power_int 2 (e - 52)"
  using assms(1) expo_unique [OF assms(1-3)] roundEven_down [OF assms(4,5)]
  by (simp add: roundDouble_def)

lemma roundDouble_up:
  assumes "0 < x" "power_int 2 e \<le> x" "x < power_int 2 (e + 1)"
    "of_int f + 1 / 2 < x / power_int 2 (e - 52)" "x / power_int 2 (e - 52) < of_int f + 1"
  shows "roundDouble x = of_int (f + 1) * power_int 2 (e - 52)"
  using assms(1) expo_unique [OF assms(1-3)] roundEven_up [OF assms(4,5)]
  by (simp add: roundDouble_def)

lemma canvasDim_of_nat: "canvasDim (real n) = n"
  by (simp add: canvasDim_def)

text \<open>
  C6: for 32-bit sizes and bound, an image within the bound keeps its dimensions; a larger
  one is rasterised with its longer dimension equal to the bound, and its shorter
  dimension is the proportional value up to the truncation to whole pixels and the
  rounding of the two double operations: less than \<open>1 + 2 ^ -19\<close> below it and less
  than \<open>2 ^ -19\<close> above it.
\<close>

theorem processImage_dimensions:
  assumes "w < 2 ^ 32" and "h < 2 ^ 32" and "m < 2 ^ 32"
  shows "\<exists>ow oh. processImage (Loaded w h) m = (DataURL ow oh, []) \<and>
     (max w h \<le> m \<longrightarrow> ow = w \<and> oh = h) \<and>
     (m < max w h \<longrightarrow> max ow oh = m \<and>
        (w \<le> h \<longrightarrow> oh = m \<and>
           real m * real w / real h - 1 - 1 / 2 ^ 19 < real ow \<and>
           real ow < real m * real w / real h + 1 / 2 ^ 19) \<and>
        (h < w \<longrightarrow> ow = m \<and>
           real m * real h / real w - 1 - 1 / 2 ^ 19 < real oh \<and>
           real oh < real m * real h / real w + 1 / 2 ^ 19))"
proof (cases "m < max w h")
  case False
  then show ?thesis
    by (simp add: processImage_def newSize_def canvasDim_of_nat)
next
  case big: True
  show ?thesis
  proof (cases "w \<le> h")
    case True
    with big have hpos: "0 < h" by auto
    let ?z = "roundDouble (roundDouble (real m / real h) * real w)"
    let ?x = "real m * real w / real h"
    have le: "canvasDim ?z \<le> m" using True hpos assms(3) by (rule canvasDim_scaled(1))
    have z0: "0 \<le> ?z" and ze: "\<bar>?z - ?x\<bar> < 1 / 2 ^ 19"
      using True hpos assms(3) by (rule scaled_error)+
    have cb: "real (canvasDim ?z) \<le> ?z \<and> ?z < real (canvasDim ?z) + 1"
      using z0 by (rule canvasDim_bounds)
    have lo: "?x - 1 - 1 / 2 ^ 19 < real (canvasDim ?z)" using cb ze by linarith
    have hi: "real (canvasDim ?z) < ?x + 1 / 2 ^ 19" using cb ze by linarith
    have p: "processImage (Loaded w h) m = (DataURL (canvasDim ?z) m, [])"
      using big True by (simp add: processImage_def newSize_def canvasDim_of_nat)
    show ?thesis using p le lo hi big True by (simp add: max_absorb2)
  next
    case False
    then have wpos: "0 < w" and hw: "h \<le> w" by auto
    let ?z = "roundDouble (roundDouble (real m / real w) * real h)"
    let ?x = "real m * real h / real w"
    have le: "canvasDim ?z \<le> m" using hw wpos assms(3) by (rule canvasDim_scaled(1))
    have z0: "0 \<le> ?z" and ze: "\<bar>?z - ?x\<bar> < 1 / 2 ^ 19"
      using hw wpos assms(3) by (rule scaled_error)+
    have cb: "real (canvasDim ?z) \<le> ?z \<and> ?z < real (canvasDim ?z) + 1"
      using z0 by (rule canvasDim_bounds)
    have lo: "?x - 1 - 1 / 2 ^ 19 < real (canvasDim ?z)" using cb ze by linarith
    have hi: "real (canvasDim ?z) < ?x + 1 / 2 ^ 19" using cb ze by linarith
    have p: "processImage (Loaded w h) m = (DataURL m (canvasDim ?z), [])"
      using big False by (simp add: processImage_def newSize_def canvasDim_of_nat)
    show ?thesis using p le lo hi big False by (simp add: max_absorb1)
  qed
qed

text \<open>
  The doubles of three runs, each from the exponent and the neighbouring 53-bit numbers
  of the exact result: a 2175 by 2900 image under the default bound, where the rounded
  product falls just short of 1536; a 3000 by 4000 image, where it is 1536; and a 98 by 49
  image under the bound 4, where it falls just short of 2.
\<close>

lemma roundDouble_2048_2900:
  "roundDouble (2048 / 2900) = 3180473116156819 / 4503599627370496"
  using roundDouble_down [of "2048 / 2900" "-1" 6360946232313638] by simp

lemma roundDouble_2048_2900_2175:
  "roundDouble (3180473116156819 / 4503599627370496 * 2175) =
     6755399441055743 / 4398046511104"
  using roundDouble_down [of "3180473116156819 / 4503599627370496 * 2175" 10 6755399441055743]
  by simp

lemma roundDouble_2048_4000:
  "roundDouble (2048 / 4000) = 1152921504606847 / 2251799813685248"
  using roundDouble_up [of "2048 / 4000" "-1" 4611686018427387] by simp

lemma roundDouble_2048_4000_3000:
  "roundDouble (1152921504606847 / 2251799813685248 * 3000) = 1536"
  using roundDouble_down [of "1152921504606847 / 2251799813685248 * 3000" 10 6755399441055744]
  by simp

lemma roundDouble_4_98:
  "roundDouble (4 / 98) = 5882252574524729 / 144115188075855872"
  using roundDouble_down [of "4 / 98" "-5" 5882252574524729] by simp

lemma roundDouble_4_98_49:
  "roundDouble (5882252574524729 / 144115188075855872 * 49) =
     9007199254740991 / 4503599627370496"
  using roundDouble_down [of "5882252574524729 / 144115188075855872 * 49" 0 9007199254740991]
  by simp

lemma processImage_2175_2900:
  "processImage (Loaded 2175 2900) 2048 = (DataURL 1535 2048, [])"
proof -
  have "newSize 2175 2900 2048 = (6755399441055743 / 4398046511104, 2048)"
    by (simp only: newSize_def of_nat_numeral roundDouble_2048_2900
        roundDouble_2048_2900_2175) simp
  then show ?thesis by (simp add: processImage_def canvasDim_def)
qed

lemma processImage_98_49:
  "processImage (Loaded 98 49) 4 = (DataURL 4 1, [])"
proof -
  have "newSize 98 49 4 = (4, 9007199254740991 / 4503599627370496)"
    by (simp only: newSize_def of_nat_numeral roundDouble_4_98 roundDouble_4_98_49) simp
  then show ?thesis by (simp add: processImage_def canvasDim_def)
qed

lemma processImage_default_example:
  "processImage_default (Loaded 3000 4000) = (DataURL 1536 2048, [])"
proof -
  have "newSize 3000 4000 2048 = (1536, 2048)"
    by (simp only: newSize_def of_nat_numeral roundDouble_2048_4000
        roundDouble_2048_4000_3000) simp
  then show ?thesis by (simp add: processImage_default_def processImage_def canvasDim_def)
qed

lemma processImage_load_error:
  "processImage LoadError m = (OriginalURL, [''Error loading image''])"
  by (simp add: processImage_def)

theorem processImage_dimensions_witness:
  "(2175::nat) < 2 ^ 32 \<and> (2900::nat) < 2 ^ 32 \<and> (2048::nat) < 2 ^ 32 \<and>
   (2048::nat) < max 2175 2900 \<and> (2175::nat) \<le> 2900 \<and>
   processImage (Loaded 2175 2900) 2048 = (DataURL 1535 2048, []) \<and>
   real 2048 * real 2175 / real 2900 - 1 - 1 / 2 ^ 19 < real 1535 \<and>
   real 1535 < real 2048 * real 2175 / real 2900 + 1 / 2 ^ 19 \<and>
   (800::nat) < 2 ^ 32 \<and> (600::nat) < 2 ^ 32 \<and> max (800::nat) 600 \<le> 2048 \<and>
   processImage (Loaded 800 600) 2048 = (DataURL 800 600, [])"
proof -
  have a: "(2175::nat) < 2 ^ 32" "(2900::nat) < 2 ^ 32" "(2048::nat) < 2 ^ 32"
    and b: "(2048::nat) < max 2175 2900" "(2175::nat) \<le> 2900"
    and c: "(800::nat) < 2 ^ 32" "(600::nat) < 2 ^ 32" "max (800::nat) 600 \<le> 2048"
    by simp_all
  obtain ow oh where big: "processImage (Loaded 2175 2900) 2048 = (DataURL ow oh, [])"
    and lo: "real 2048 * real 2175 / real 2900 - 1 - 1 / 2 ^ 19 < real ow"
    and hi: "real ow < real 2048 * real 2175 / real 2900 + 1 / 2 ^ 19"
    using processImage_dimensions [OF a] b by auto
  from big have ow: "ow = 1535" by (simp add: processImage_2175_2900)
  obtain ow' oh' where small: "processImage (Loaded 800 600) 2048 = (DataURL ow' oh', [])"
    and same: "ow' = 800" "oh' = 600"
    using processImage_dimensions [OF c(1,2) a(3)] c(3) by auto
  show ?thesis
    using a b c lo hi small same unfolding ow
    by (simp add: processImage_2175_2900)
qed

section \<open>The session invariant\<close>

lemma wfI:
  assumes "canvasRef s = Some cv" "objects cv = b # rest"
    "backgroundImage cv = Some b" "backgroundObject cv = None"
    "baseObject (heap s b)" "\<And>i. i \<in> set rest \<Longrightarrow> overlay s i"
    "distinct (b # rest)" "\<And>i. i \<in> set (b # rest) \<Longrightarrow> i < next_oid s"
    "\<And>act. activeObject cv = Some act \<Longrightarrow> act \<in> set rest"
    "cwidth cv = 1200" "cheight cv = 960"
  shows "wf s"
  using assms by (auto simp: wf_def list_all_iff split: option.splits)

lemma wfE:
  assumes "wf s"
  obtains cv b rest where "canvasRef s = Some cv" "objects cv = b # rest"
    "backgroundImage cv = Some b" "backgroundObject cv = None"
    "baseObject (heap s b)" "\<forall>i\<in>set rest. overlay s i"
    "distinct (b # rest)" "\<forall>i\<in>set (b # rest). i < next_oid s"
    "\<forall>act. activeObject cv = Some act \<longrightarrow> act \<in> set rest"
    "cwidth cv = 1200" "cheight cv = 960"
  using assms by (auto simp: wf_def list_all_iff split: option.splits list.splits)

lemma baseObject_is_Image: "baseObject (h b) \<Longrightarrow> is_Image h b"
  by (auto simp: baseObject_def is_Image_def split: option.splits)

lemma overlay_not_Image: "overlay s i \<Longrightarrow> \<not> is_Image (heap s) i"
  by (auto simp: overlay_def is_Image_def split: option.splits)

lemma overlay_not_base: "overlay s i \<Longrightarrow> baseObject (heap s b) \<Longrightarrow> i \<noteq> b"
  by (auto simp: overlay_def baseObject_def split: option.splits)

lemma find_base:
  assumes "wf s" "canvasRef s = Some cv"
  shows "find (is_Image (heap s)) (objects cv) = Some (hd (objects cv))"
  using assms by (auto elim!: wfE simp: baseObject_is_Image)

lemma wf_initCanvas: "wf (initCanvas iw ih)"
  by (simp add: wf_def initCanvas_def initCanvas_fromURL_def initialState_def tabEffect_def
      newCanvas_def sendToBack_def setBackgroundImage_def canvas_add_def baseObject_def
      newObject_def Let_def)

lemma wf_filterEffect:
  assumes "wf s"
  shows "wf (filterEffect s)"
proof -
  from assms obtain cv b rest where h: "canvasRef s = Some cv" "objects cv = b # rest"
    "backgroundImage cv = Some b" "backgroundObject cv = None"
    "baseObject (heap s b)" "\<forall>i\<in>set rest. overlay s i"
    "distinct (b # rest)" "\<forall>i\<in>set (b # rest). i < next_oid s"
    "\<forall>act. activeObject cv = Some act \<longrightarrow> act \<in> set rest"
    "cwidth cv = 1200" "cheight cv = 960"
    by (rule wfE)
  from h(5) obtain ob where ob: "heap s b = Some ob" "klass ob = FabricImage"
    "\<not> selectable ob" "\<not> evented ob"
    by (auto simp: baseObject_def split: option.splits)
  have f: "find (is_Image (heap s)) (getObjects cv) = Some b"
    using h(2) ob by (simp add: getObjects_def is_Image_def)
  let ?s' = "filterEffect s"
  have c': "canvasRef ?s' = Some cv" and n': "next_oid ?s' = next_oid s"
    using h(1) f ob by (simp_all add: filterEffect_def Let_def)
  have hb: "baseObject (heap ?s' b)"
    using h(1) f ob by (simp add: filterEffect_def Let_def baseObject_def applyFilters_def)
  have ho: "\<And>i. i \<noteq> b \<Longrightarrow> heap ?s' i = heap s i"
    using h(1) f ob by (simp add: filterEffect_def Let_def)
  show ?thesis
  proof (rule wfI [OF c' h(2) h(3) h(4) hb])
    fix i assume i: "i \<in> set rest"
    with h(7) have "i \<noteq> b" by auto
    with i h(6) show "overlay ?s' i" by (simp add: overlay_def ho)
  qed (use h n' in auto)
qed


lemma overlay_setFilterState: "overlay (s\<lparr>filterState := t\<rparr>) = overlay s"
  by (rule ext) (simp add: overlay_def)

lemma wf_setFilterState: "wf (s\<lparr>filterState := t\<rparr>) = wf s"
  by (simp add: wf_def overlay_setFilterState cong: option.case_cong list.case_cong)

lemma wf_handleFilterChange: "wf s \<Longrightarrow> wf (handleFilterChange ty v s)"
  unfolding handleFilterChange_def by (rule wf_filterEffect) (simp add: wf_setFilterState)

lemma wf_resetFilters: "wf s \<Longrightarrow> wf (resetFilters s)"
  unfolding resetFilters_def by (rule wf_filterEffect) (simp add: wf_setFilterState)

lemma klass_groupSVGElements: "klass (groupSVGElements r) = FabricGroup"
  by (simp add: groupSVGElements_def newObject_def split: svg_load.splits)

lemma addSticker_canvas:
  assumes "canvasRef s = Some cv"
  shows "canvasRef (addSticker r s) =
           Some (cv\<lparr>objects := objects cv @ [next_oid s], activeObject := Some (next_oid s)\<rparr>)"
    and "next_oid (addSticker r s) = Suc (next_oid s)"
    and "selectedSticker (addSticker r s)"
    and "console (addSticker r s) = console s"
    and "filterState (addSticker r s) = filterState s"
  using assms
  by (simp_all add: addSticker_def addSticker_loaded_def Let_def setActiveObject_def
      canvas_add_def)

lemma addSticker_heap:
  assumes "canvasRef s = Some cv"
  shows "i \<noteq> next_oid s \<Longrightarrow> heap (addSticker r s) i = heap s i"
    and "\<exists>ob. heap (addSticker r s) (next_oid s) = Some ob \<and> klass ob = FabricGroup"
  using assms
  by (simp_all add: addSticker_def addSticker_loaded_def Let_def klass_groupSVGElements)

lemma wf_addSticker:
  assumes "wf s"
  shows "wf (addSticker r s)"
proof -
  from assms obtain cv b rest where h: "canvasRef s = Some cv" "objects cv = b # rest"
    "backgroundImage cv = Some b" "backgroundObject cv = None"
    "baseObject (heap s b)" "\<forall>i\<in>set rest. overlay s i"
    "distinct (b # rest)" "\<forall>i\<in>set (b # rest). i < next_oid s"
    "\<forall>act. activeObject cv = Some act \<longrightarrow> act \<in> set rest"
    "cwidth cv = 1200" "cheight cv = 960"
    by (rule wfE)
  let ?g = "next_oid s" and ?s' = "addSticker r s"
  let ?cv' = "cv\<lparr>objects := objects cv @ [?g], activeObject := Some ?g\<rparr>"
  have fresh: "?g \<notin> set (b # rest)" using h(8) by auto
  have c': "canvasRef ?s' = Some ?cv'" by (rule addSticker_canvas(1) [OF h(1)])
  have o': "objects ?cv' = b # (rest @ [?g])" using h(2) by simp
  have old: "\<And>i. i \<in> set (b # rest) \<Longrightarrow> heap ?s' i = heap s i"
    using fresh addSticker_heap(1) [OF h(1)] by metis
  show ?thesis
  proof (rule wfI [OF c' o'])
    show "baseObject (heap ?s' b)" using old [of b] h(5) by simp
    show "distinct (b # rest @ [?g])" using h(7) fresh by auto
  next
    fix i assume "i \<in> set (rest @ [?g])"
    then consider "i \<in> set rest" | "i = ?g" by auto
    then show "overlay ?s' i"
    proof cases
      case 1
      then show ?thesis using old [of i] h(6) by (simp add: overlay_def)
    next
      case 2
      then show ?thesis using addSticker_heap(2) [OF h(1), of r] by (auto simp: overlay_def)
    qed
  next
    fix i assume "i \<in> set (b # rest @ [?g])"
    then show "i < next_oid ?s'"
      using h(8) by (auto simp: addSticker_canvas(2) [OF h(1)] less_Suc_eq)
  qed (use h in auto)
qed

lemma deleteSelectedSticker_wf_eq:
  assumes "canvasRef s = Some cv" "backgroundObject cv = None"
  shows "deleteSelectedSticker s =
           (case activeObject cv of None \<Rightarrow> s
            | Some act \<Rightarrow> s\<lparr>canvasRef := Some (canvas_remove act cv), selectedSticker := False\<rparr>)"
  using assms by (simp add: deleteSelectedSticker_def getActiveObject_def split: option.splits)

lemma wf_deleteSelectedSticker:
  assumes "wf s"
  shows "wf (deleteSelectedSticker s)"
proof -
  from assms obtain cv b rest where h: "canvasRef s = Some cv" "objects cv = b # rest"
    "backgroundImage cv = Some b" "backgroundObject cv = None"
    "baseObject (heap s b)" "\<forall>i\<in>set rest. overlay s i"
    "distinct (b # rest)" "\<forall>i\<in>set (b # rest). i < next_oid s"
    "\<forall>act. activeObject cv = Some act \<longrightarrow> act \<in> set rest"
    "cwidth cv = 1200" "cheight cv = 960"
    by (rule wfE)
  show ?thesis
  proof (cases "activeObject cv")
    case None
    then show ?thesis using assms h by (simp add: deleteSelectedSticker_wf_eq)
  next
    case (Some act)
    with h(9) have a: "act \<in> set rest" by simp
    with h(7) have ab: "act \<noteq> b" by auto
    let ?cv' = "canvas_remove act cv"
    let ?s' = "s\<lparr>canvasRef := Some ?cv', selectedSticker := False\<rparr>"
    have eq: "deleteSelectedSticker s = ?s'"
      using h Some by (simp add: deleteSelectedSticker_wf_eq)
    have o': "objects ?cv' = b # remove1 act rest"
      using h(2) a ab by (simp add: canvas_remove_def)
    have "wf ?s'"
    proof (rule wfI [of _ ?cv' b "remove1 act rest"])
      show "distinct (b # remove1 act rest)" using h(7) by auto
      show "baseObject (heap ?s' b)" using h(5) by simp
    next
      fix i assume "i \<in> set (remove1 act rest)"
      then have "i \<in> set rest" by (meson notin_set_remove1)
      then show "overlay ?s' i" using h(6) by (simp add: overlay_def)
    next
      fix i assume "i \<in> set (b # remove1 act rest)"
      then have "i \<in> set (b # rest)" by (auto dest: notin_set_remove1)
      then show "i < next_oid ?s'" using h(8) by auto
    next
      fix x assume "activeObject ?cv' = Some x"
      then show "x \<in> set (remove1 act rest)"
        using Some a h(2) by (simp add: canvas_remove_def)
    qed (use o' h a in \<open>simp_all add: canvas_remove_def\<close>)
    with eq show ?thesis by simp
  qed
qed

lemma handleKeyDown_eq:
  "handleKeyDown key s =
     (if key = ''Delete'' \<or> key = ''Backspace'' then deleteSelectedSticker s else s)"
  by (simp add: handleKeyDown_def deleteSelectedSticker_def split: option.splits)

lemma wf_handleKeyDown: "wf s \<Longrightarrow> wf (handleKeyDown key s)"
  by (simp add: handleKeyDown_eq wf_deleteSelectedSticker)


lemma sendStickerToBack_steps:
  assumes h: "canvasRef s = Some cv" "objects cv = b # rest" "backgroundObject cv = None"
    "baseObject (heap s b)" "overlay s act" "activeObject cv = Some act" "act \<in> set rest"
  shows "objects (sendToBack act cv) = act # b # remove1 act rest"
    and "find (is_Image (heap s)) (getObjects (sendToBack act cv)) = Some b"
    and "sendStickerToBack s = s\<lparr>canvasRef := Some (sendToBack b (sendToBack act cv))\<rparr>"
    and "objects (sendToBack b (sendToBack act cv)) = b # act # remove1 act rest"
proof -
  have ab: "act \<noteq> b" using h(5,4) by (rule overlay_not_base)
  show 1: "objects (sendToBack act cv) = act # b # remove1 act rest"
    using h(2) ab by (simp add: sendToBack_def)
  show 2: "find (is_Image (heap s)) (getObjects (sendToBack act cv)) = Some b"
    using 1 overlay_not_Image [OF h(5)] baseObject_is_Image [of "heap s" b] h(4)
    by (simp add: getObjects_def)
  show "sendStickerToBack s = s\<lparr>canvasRef := Some (sendToBack b (sendToBack act cv))\<rparr>"
    using h(1,3,6) 2 by (simp add: sendStickerToBack_def getActiveObject_def Let_def)
  show "objects (sendToBack b (sendToBack act cv)) = b # act # remove1 act rest"
    using 1 ab by (simp add: sendToBack_def)
qed

lemma wf_sendStickerToBack:
  assumes "wf s"
  shows "wf (sendStickerToBack s)"
proof -
  from assms obtain cv b rest where h: "canvasRef s = Some cv" "objects cv = b # rest"
    "backgroundImage cv = Some b" "backgroundObject cv = None"
    "baseObject (heap s b)" "\<forall>i\<in>set rest. overlay s i"
    "distinct (b # rest)" "\<forall>i\<in>set (b # rest). i < next_oid s"
    "\<forall>act. activeObject cv = Some act \<longrightarrow> act \<in> set rest"
    "cwidth cv = 1200" "cheight cv = 960"
    by (rule wfE)
  show ?thesis
  proof (cases "activeObject cv")
    case None
    then show ?thesis
      using assms h(1) by (simp add: sendStickerToBack_def getActiveObject_def)
  next
    case (Some act)
    with h(9) have a: "act \<in> set rest" by simp
    with h(6) have ov: "overlay s act" by simp
    let ?cv' = "sendToBack b (sendToBack act cv)"
    let ?s' = "s\<lparr>canvasRef := Some ?cv'\<rparr>"
    note st = sendStickerToBack_steps [OF h(1,2,4,5) ov Some a]
    have set_eq: "set (act # remove1 act rest) = set rest"
      using a h(7) by auto
    have "wf ?s'"
    proof (rule wfI [of _ ?cv' b "act # remove1 act rest"])
      show "objects ?cv' = b # act # remove1 act rest" by (rule st(4))
      show "distinct (b # act # remove1 act rest)" using h(7) a by auto
      show "baseObject (heap ?s' b)" using h(5) by simp
    next
      fix i assume "i \<in> set (act # remove1 act rest)"
      then have "i \<in> set rest" using set_eq by blast
      then show "overlay ?s' i" using h(6) by (simp add: overlay_def)
    next
      fix i assume "i \<in> set (b # act # remove1 act rest)"
      then have "i \<in> set (b # rest)" using set_eq by auto
      then show "i < next_oid ?s'" using h(8) by auto
    next
      fix x assume "activeObject ?cv' = Some x"
      then show "x \<in> set (act # remove1 act rest)"
        using Some by (simp add: sendToBack_def)
    qed (use h in \<open>simp_all add: sendToBack_def\<close>)
    with st(3) show ?thesis by simp
  qed
qed

lemma wf_userSelect:
  assumes "wf s"
  shows "wf (userSelect i s)"
proof -
  from assms obtain cv b rest where h: "canvasRef s = Some cv" "objects cv = b # rest"
    "backgroundImage cv = Some b" "backgroundObject cv = None"
    "baseObject (heap s b)" "\<forall>i\<in>set rest. overlay s i"
    "distinct (b # rest)" "\<forall>i\<in>set (b # rest). i < next_oid s"
    "\<forall>act. activeObject cv = Some act \<longrightarrow> act \<in> set rest"
    "cwidth cv = 1200" "cheight cv = 960"
    by (rule wfE)
  show ?thesis
  proof (cases "userSelect i s = s")
    case True
    with assms show ?thesis by simp
  next
    case False
    then obtain ob where ob: "heap s i = Some ob" "i \<in> set (objects cv)"
      "selectable ob" "evented ob"
      and eq: "userSelect i s = s\<lparr>canvasRef := Some (setActiveObject i cv), selectedSticker := True\<rparr>"
      using h(1) by (auto simp: userSelect_def split: option.splits if_splits)
    have "i \<noteq> b" using ob(1,3) h(5) by (auto simp: baseObject_def)
    with ob(2) h(2) have ir: "i \<in> set rest" by simp
    let ?s' = "s\<lparr>canvasRef := Some (setActiveObject i cv), selectedSticker := True\<rparr>"
    have "wf ?s'"
    proof (rule wfI [of _ "setActiveObject i cv" b rest])
      fix j assume "j \<in> set rest"
      then show "overlay ?s' j" using h(6) by (simp add: overlay_def)
    qed (use h ir in \<open>auto simp: setActiveObject_def\<close>)
    with eq show ?thesis by simp
  qed
qed

lemma wf_userDeselect:
  assumes "wf s"
  shows "wf (userDeselect s)"
proof -
  from assms obtain cv b rest where h: "canvasRef s = Some cv" "objects cv = b # rest"
    "backgroundImage cv = Some b" "backgroundObject cv = None"
    "baseObject (heap s b)" "\<forall>i\<in>set rest. overlay s i"
    "distinct (b # rest)" "\<forall>i\<in>set (b # rest). i < next_oid s"
    "\<forall>act. activeObject cv = Some act \<longrightarrow> act \<in> set rest"
    "cwidth cv = 1200" "cheight cv = 960"
    by (rule wfE)
  show ?thesis
  proof (cases "activeObject cv")
    case None
    with assms h(1) show ?thesis by (simp add: userDeselect_def)
  next
    case (Some act)
    let ?s' = "s\<lparr>canvasRef := Some (discardActiveObject cv), selectedSticker := False\<rparr>"
    have eq: "userDeselect s = ?s'" using h(1) Some by (simp add: userDeselect_def)
    have "wf ?s'"
    proof (rule wfI [of _ "discardActiveObject cv" b rest])
      fix j assume "j \<in> set rest"
      then show "overlay ?s' j" using h(6) by (simp add: overlay_def)
    qed (use h in \<open>auto simp: discardActiveObject_def\<close>)
    with eq show ?thesis by simp
  qed
qed

lemma wf_step: "wf s \<Longrightarrow> wf (step a s)"
  by (cases a)
    (simp_all add: wf_addSticker wf_handleFilterChange wf_resetFilters
      wf_deleteSelectedSticker wf_handleKeyDown wf_sendStickerToBack wf_userSelect
      wf_userDeselect)

lemma wf_run: "wf s \<Longrightarrow> wf (run acts s)"
  unfolding run_def by (induction acts arbitrary: s) (simp_all add: wf_step)

lemma wf_session: "wf (run acts (initCanvas iw ih))"
  by (rule wf_run) (rule wf_initCanvas)

lemma baseLayer_filterEffect: "baseLayer (filterEffect s) = baseLayer s"
  by (simp add: baseLayer_def filterEffect_def Let_def split: option.splits)

lemma baseLayer_step: "baseLayer (step a s) = baseLayer s"
proof (cases a)
  case (AddSticker r)
  then show ?thesis
    by (simp add: baseLayer_def addSticker_def addSticker_loaded_def Let_def
        setActiveObject_def canvas_add_def split: option.splits)
next
  case (FilterChange ty v)
  then show ?thesis
    by (simp add: handleFilterChange_def baseLayer_filterEffect) (simp add: baseLayer_def)
next
  case ResetFilters
  then show ?thesis
    by (simp add: resetFilters_def baseLayer_filterEffect) (simp add: baseLayer_def)
next
  case DeleteClick
  then show ?thesis
    by (simp add: baseLayer_def deleteSelectedSticker_def canvas_remove_def
        split: option.splits)
next
  case (KeyDown key)
  then show ?thesis
    by (simp add: baseLayer_def handleKeyDown_def canvas_remove_def split: option.splits)
next
  case SendToBackClick
  then show ?thesis
    by (simp add: baseLayer_def sendStickerToBack_def sendToBack_def Let_def
        split: option.splits)
next
  case (UserSelect i)
  then show ?thesis
    by (simp add: baseLayer_def userSelect_def setActiveObject_def split: option.splits)
next
  case UserDeselect
  then show ?thesis
    by (simp add: baseLayer_def userDeselect_def discardActiveObject_def split: option.splits)
qed

lemma baseLayer_run: "baseLayer (run acts s) = baseLayer s"
  unfolding run_def by (induction acts arbitrary: s) (simp_all add: baseLayer_step)

lemma initCanvas_state:
  "canvasRef (initCanvas iw ih) =
     Some (newCanvas\<lparr>objects := [0], backgroundImage := Some 0\<rparr>)"
  "next_oid (initCanvas iw ih) = 1"
  "heap (initCanvas iw ih) = (\<lambda>i. None)(0 \<mapsto>
      (newObject FabricImage (real iw) (real ih))
         \<lparr>scaleX := jsmin (jsdiv 1200 (real iw)) (jsdiv 960 (real ih)),
          scaleY := jsmin (jsdiv 1200 (real iw)) (jsdiv 960 (real ih)),
          originX := ''center'', originY := ''center'', oleft := 600, otop := 480,
          selectable := False, evented := False\<rparr>)"
  "filterState (initCanvas iw ih) = noFilters"
  "selectedSticker (initCanvas iw ih) = False"
  "console (initCanvas iw ih) = []"
  by (simp_all add: initCanvas_def initCanvas_fromURL_def initialState_def tabEffect_def
      newCanvas_def sendToBack_def setBackgroundImage_def canvas_add_def Let_def)

lemma baseLayer_session: "baseLayer (run acts (initCanvas iw ih)) = Some 0"
  by (simp add: baseLayer_run) (simp add: baseLayer_def initCanvas_state)

text \<open>Session states: the canvas and its base layer.\<close>

lemma session_shape:
  obtains cv rest where "canvasRef (run acts (initCanvas iw ih)) = Some cv"
    "objects cv = 0 # rest" "backgroundImage cv = Some 0" "backgroundObject cv = None"
    "baseObject (heap (run acts (initCanvas iw ih)) 0)"
    "\<forall>i\<in>set rest. overlay (run acts (initCanvas iw ih)) i"
    "distinct (0 # rest)" "\<forall>i\<in>set (0 # rest). i < next_oid (run acts (initCanvas iw ih))"
    "\<forall>act. activeObject cv = Some act \<longrightarrow> act \<in> set rest"
    "cwidth cv = 1200" "cheight cv = 960"
proof -
  let ?s = "run acts (initCanvas iw ih)"
  have "wf ?s" by (rule wf_session)
  then obtain cv b rest where h: "canvasRef ?s = Some cv" "objects cv = b # rest"
    "backgroundImage cv = Some b" "backgroundObject cv = None"
    "baseObject (heap ?s b)" "\<forall>i\<in>set rest. overlay ?s i"
    "distinct (b # rest)" "\<forall>i\<in>set (b # rest). i < next_oid ?s"
    "\<forall>act. activeObject cv = Some act \<longrightarrow> act \<in> set rest"
    "cwidth cv = 1200" "cheight cv = 960"
    by (rule wfE)
  have "baseLayer ?s = Some 0" by (rule baseLayer_session)
  with h(1,3) have "b = 0" by (simp add: baseLayer_def)
  with h that show thesis by blast
qed

section \<open>Initialisation\<close>

lemma jsmin_jsdiv_positive:
  assumes "0 < b" "0 < d"
  shows "jsmin (jsdiv a b) (jsdiv c d) = Fin (min (a / b) (c / d))"
  using assms by (simp add: jsdiv_def)

text \<open>
  C7: when the base image has loaded, on a surface whose elements are overlays (none
  when nothing was placed in the meantime), the callback adds one new image and leaves it
  at the back of the element list, below every element already there, as the only image
  and as the registered background image. For an image of positive size its scale in
  both directions is the minimum of surface width by image width and surface height by
  image height; it is centred on the surface midpoint and neither selectable nor evented.
  Initialisation itself gives the 1200 by 960 surface with that image as its only element.
\<close>

theorem initCanvas_base_layer:
  assumes "canvasRef s = Some cv"
    and "\<forall>i\<in>set (getObjects cv). i < next_oid s \<and> overlay s i"
  shows "\<exists>cv' b ob.
     canvasRef (initCanvas_fromURL iw ih s) = Some cv' \<and>
     b \<notin> set (getObjects cv) \<and> getObjects cv' = b # getObjects cv \<and>
     backgroundImage cv' = Some b \<and>
     heap (initCanvas_fromURL iw ih s) b = Some ob \<and> klass ob = FabricImage \<and>
     filter (is_Image (heap (initCanvas_fromURL iw ih s))) (getObjects cv') = [b] \<and>
     (0 < iw \<and> 0 < ih \<longrightarrow>
        scaleX ob = Fin (min (real (cwidth cv) / real iw) (real (cheight cv) / real ih))) \<and>
     scaleY ob = scaleX ob \<and>
     originX ob = ''center'' \<and> originY ob = ''center'' \<and>
     oleft ob = real (cwidth cv) / 2 \<and> otop ob = real (cheight cv) / 2 \<and>
     \<not> selectable ob \<and> \<not> evented ob \<and>
     (\<forall>i. i \<noteq> b \<longrightarrow> heap (initCanvas_fromURL iw ih s) i = heap s i) \<and>
     getActiveObject cv' = getActiveObject cv \<and>
     (\<exists>cv0. canvasRef (initCanvas iw ih) = Some cv0 \<and> getObjects cv0 = [0] \<and>
        backgroundImage cv0 = Some 0 \<and> cwidth cv0 = 1200 \<and> cheight cv0 = 960 \<and>
        getActiveObject cv0 = None \<and> is_Image (heap (initCanvas iw ih)) 0 \<and>
        map_option scaleX (heap (initCanvas iw ih) 0) =
          Some (if 0 < iw \<and> 0 < ih then Fin (min (1200 / real iw) (960 / real ih))
                else if 0 < iw then Fin (1200 / real iw)
                else if 0 < ih then Fin (960 / real ih)
                else PosInfinity))"
proof -
  let ?s' = "initCanvas_fromURL iw ih s"
  let ?b = "next_oid s"
  let ?scale = "jsmin (jsdiv (real (cwidth cv)) (real iw)) (jsdiv (real (cheight cv)) (real ih))"
  let ?ob = "(newObject FabricImage (real iw) (real ih))
               \<lparr>scaleX := ?scale, scaleY := ?scale,
                originX := ''center'', originY := ''center'',
                oleft := real (cwidth cv) / 2, otop := real (cheight cv) / 2,
                selectable := False, evented := False\<rparr>"
  let ?cv' = "cv\<lparr>objects := ?b # objects cv, backgroundImage := Some ?b\<rparr>"
  have fresh: "?b \<notin> set (objects cv)" using assms(2) by (auto simp: getObjects_def)
  then have rm: "remove1 ?b (objects cv @ [?b]) = objects cv" by (simp add: remove1_append)
  have c': "canvasRef ?s' = Some ?cv'"
    using assms(1) rm
    by (simp add: initCanvas_fromURL_def Let_def sendToBack_def setBackgroundImage_def
        canvas_add_def)
  have hp: "heap ?s' = (heap s)(?b \<mapsto> ?ob)"
    using assms(1) by (simp add: initCanvas_fromURL_def Let_def)
  have img: "is_Image (heap ?s') ?b" by (simp add: hp is_Image_def newObject_def)
  have others: "\<forall>i\<in>set (objects cv). \<not> is_Image (heap ?s') i"
  proof
    fix i assume i: "i \<in> set (objects cv)"
    with fresh have "i \<noteq> ?b" by auto
    moreover have "overlay s i" using assms(2) i by (simp add: getObjects_def)
    ultimately show "\<not> is_Image (heap ?s') i"
      by (simp add: hp is_Image_def overlay_def split: option.splits)
  qed
  then have "filter (is_Image (heap ?s')) (objects cv) = []" by (simp add: filter_empty_conv)
  with img have one: "filter (is_Image (heap ?s')) (getObjects ?cv') = [?b]"
    by (simp add: getObjects_def)
  have sc: "0 < iw \<and> 0 < ih \<longrightarrow>
        scaleX ?ob = Fin (min (real (cwidth cv) / real iw) (real (cheight cv) / real ih))"
    by (simp add: jsmin_jsdiv_positive)
  have general: "\<exists>cv' b ob.
     canvasRef ?s' = Some cv' \<and>
     b \<notin> set (getObjects cv) \<and> getObjects cv' = b # getObjects cv \<and>
     backgroundImage cv' = Some b \<and>
     heap ?s' b = Some ob \<and> klass ob = FabricImage \<and>
     filter (is_Image (heap ?s')) (getObjects cv') = [b] \<and>
     (0 < iw \<and> 0 < ih \<longrightarrow>
        scaleX ob = Fin (min (real (cwidth cv) / real iw) (real (cheight cv) / real ih))) \<and>
     scaleY ob = scaleX ob \<and>
     originX ob = ''center'' \<and> originY ob = ''center'' \<and>
     oleft ob = real (cwidth cv) / 2 \<and> otop ob = real (cheight cv) / 2 \<and>
     \<not> selectable ob \<and> \<not> evented ob \<and>
     (\<forall>i. i \<noteq> b \<longrightarrow> heap ?s' i = heap s i) \<and>
     getActiveObject cv' = getActiveObject cv"
    apply (rule exI [of _ ?cv'], rule exI [of _ ?b], rule exI [of _ ?ob])
    using c' fresh one sc
    by (simp add: hp getObjects_def getActiveObject_def newObject_def)
  have init: "\<exists>cv0. canvasRef (initCanvas iw ih) = Some cv0 \<and> getObjects cv0 = [0] \<and>
        backgroundImage cv0 = Some 0 \<and> cwidth cv0 = 1200 \<and> cheight cv0 = 960 \<and>
        getActiveObject cv0 = None \<and> is_Image (heap (initCanvas iw ih)) 0 \<and>
        map_option scaleX (heap (initCanvas iw ih) 0) =
          Some (if 0 < iw \<and> 0 < ih then Fin (min (1200 / real iw) (960 / real ih))
                else if 0 < iw then Fin (1200 / real iw)
                else if 0 < ih then Fin (960 / real ih)
                else PosInfinity)"
    by (simp add: initCanvas_state newCanvas_def getObjects_def getActiveObject_def
        is_Image_def newObject_def jsdiv_def)
  from general init show ?thesis by blast
qed

text \<open>
  A sticker placed before the base image has loaded: the 1200 by 1920 image still goes
  below it, and its scale is the smaller ratio, 960 / 1920.
\<close>

lemma early_sticker_state:
  "canvasRef (addSticker (SvgLoaded 50 40) ((tabEffect initialState)\<lparr>canvasRef := Some newCanvas\<rparr>)) =
     Some (newCanvas\<lparr>objects := [0], activeObject := Some 0\<rparr>)"
  "next_oid (addSticker (SvgLoaded 50 40) ((tabEffect initialState)\<lparr>canvasRef := Some newCanvas\<rparr>)) = 1"
  "overlay (addSticker (SvgLoaded 50 40) ((tabEffect initialState)\<lparr>canvasRef := Some newCanvas\<rparr>)) 0"
  by (simp_all add: addSticker_def addSticker_loaded_def Let_def setActiveObject_def
      canvas_add_def newCanvas_def initialState_def tabEffect_def overlay_def
      groupSVGElements_def newObject_def)

theorem initCanvas_base_layer_witness:
  "(0::nat) < 1200 \<and> (0::nat) < 1920 \<and>
   map_option getObjects
     (canvasRef (initCanvas_fromURL 1200 1920
        (addSticker (SvgLoaded 50 40)
           ((tabEffect initialState)\<lparr>canvasRef := Some newCanvas\<rparr>)))) = Some [1, 0] \<and>
   map_option scaleX
     (heap (initCanvas_fromURL 1200 1920
        (addSticker (SvgLoaded 50 40)
           ((tabEffect initialState)\<lparr>canvasRef := Some newCanvas\<rparr>))) 1) = Some (Fin (1 / 2))"
proof -
  let ?s = "addSticker (SvgLoaded 50 40) ((tabEffect initialState)\<lparr>canvasRef := Some newCanvas\<rparr>)"
  let ?cv = "newCanvas\<lparr>objects := [0], activeObject := Some 0\<rparr>"
  have c: "canvasRef ?s = Some ?cv" by (rule early_sticker_state)
  have o: "\<forall>i\<in>set (getObjects ?cv). i < next_oid ?s \<and> overlay ?s i"
    by (simp add: getObjects_def early_sticker_state)
  have pos: "(0::nat) < 1200 \<and> (0::nat) < 1920" by simp
  obtain cv' b ob where h: "canvasRef (initCanvas_fromURL 1200 1920 ?s) = Some cv'"
    "b \<notin> set (getObjects ?cv)" "getObjects cv' = b # getObjects ?cv"
    "heap (initCanvas_fromURL 1200 1920 ?s) b = Some ob"
    "filter (is_Image (heap (initCanvas_fromURL 1200 1920 ?s))) (getObjects cv') = [b]"
    "(0::nat) < 1200 \<and> (0::nat) < 1920 \<longrightarrow>
       scaleX ob = Fin (min (real (cwidth ?cv) / real 1200) (real (cheight ?cv) / real 1920))"
    using initCanvas_base_layer [OF c o, of 1200 1920] by blast
  have hp: "heap (initCanvas_fromURL 1200 1920 ?s) 0 = heap ?s 0"
    using c by (simp add: initCanvas_fromURL_def Let_def early_sticker_state)
  have "\<not> is_Image (heap ?s) 0"
    using early_sticker_state(3) by (simp add: overlay_def is_Image_def split: option.splits)
  have b: "b = 1"
  proof -
    have "is_Image (heap (initCanvas_fromURL 1200 1920 ?s)) 1"
      using c by (simp add: initCanvas_fromURL_def Let_def early_sticker_state is_Image_def
          newObject_def)
    moreover have "1 \<in> set (getObjects cv')"
      using h(1) c
      by (simp add: initCanvas_fromURL_def Let_def early_sticker_state sendToBack_def
          setBackgroundImage_def canvas_add_def getObjects_def) auto
    ultimately have "1 \<in> set (filter (is_Image (heap (initCanvas_fromURL 1200 1920 ?s)))
        (getObjects cv'))" by simp
    with h(5) show ?thesis by simp
  qed
  from h(3) b have 1: "getObjects cv' = [1, 0]" by (simp add: getObjects_def)
  from h(6) pos have "scaleX ob = Fin (1 / 2)" by (simp add: newCanvas_def)
  with h(1,4) b 1 pos show ?thesis by simp
qed

text \<open>
  For instance a 2048 by 1536 image on the 1200 by 960 surface is shown at 75/128.
\<close>

lemma initCanvas_fit_scale:
  assumes "0 < iw" "0 < ih"
  shows "map_option scaleX (heap (initCanvas iw ih) 0) =
           Some (Fin (min (1200 / real iw) (960 / real ih)))"
  using assms by (simp add: initCanvas_state jsdiv_def)

lemma initCanvas_fit_scale_example:
  "map_option scaleX (heap (initCanvas 2048 1536) 0) = Some (Fin (75 / 128))"
  by (simp add: initCanvas_fit_scale)

section \<open>Tone adjustment\<close>

lemma is_Image_upd:
  assumes "h b = Some ob" "klass ob' = klass ob"
  shows "is_Image (h(b \<mapsto> ob')) = is_Image h"
  using assms by (auto simp: is_Image_def fun_eq_iff)

lemma filterEffect_unfold:
  assumes "canvasRef s = Some cv" "find (is_Image (heap s)) (objects cv) = Some b"
    "heap s b = Some old"
  shows "filterEffect s =
           s\<lparr>heap := (heap s)(b \<mapsto> old\<lparr>filters := filterChain (filterState s),
                                          applied := effective (filterChain (filterState s))\<rparr>)\<rparr>"
  using assms by (simp add: filterEffect_def getObjects_def Let_def applyFilters_def filterChain_def)

lemma filterState_filterEffect: "filterState (filterEffect s) = filterState s"
  by (simp add: filterEffect_def Let_def split: option.splits)

lemma filterEffect_absorb:
  "filterEffect ((filterEffect s)\<lparr>filterState := t\<rparr>) = filterEffect (s\<lparr>filterState := t\<rparr>)"
proof (cases "canvasRef s")
  case None
  then show ?thesis by (simp add: filterEffect_def)
next
  case (Some cv)
  show ?thesis
  proof (cases "find (is_Image (heap s)) (objects cv)")
    case None
    then show ?thesis using Some by (simp add: filterEffect_def getObjects_def)
  next
    case found: (Some b)
    show ?thesis
    proof (cases "heap s b")
      case None
      then show ?thesis using Some found by (simp add: filterEffect_def getObjects_def)
    next
      case old: (Some old)
      let ?new = "old\<lparr>filters := filterChain (filterState s),
                       applied := effective (filterChain (filterState s))\<rparr>"
      let ?s1 = "(filterEffect s)\<lparr>filterState := t\<rparr>"
      have e1: "filterEffect s = s\<lparr>heap := (heap s)(b \<mapsto> ?new)\<rparr>"
        by (rule filterEffect_unfold [OF Some found old])
      have img: "is_Image (heap (filterEffect s)) = is_Image (heap s)"
        using old by (simp add: e1 is_Image_upd)
      have c1: "canvasRef ?s1 = Some cv" by (simp add: e1 Some)
      have f1: "find (is_Image (heap ?s1)) (objects cv) = Some b"
        using img found by simp
      have h1: "heap ?s1 b = Some ?new" by (simp add: e1)
      have "filterEffect ?s1 =
              ?s1\<lparr>heap := (heap ?s1)(b \<mapsto> ?new\<lparr>filters := filterChain (filterState ?s1),
                          applied := effective (filterChain (filterState ?s1))\<rparr>)\<rparr>"
        by (rule filterEffect_unfold [OF c1 f1 h1])
      moreover have "filterEffect (s\<lparr>filterState := t\<rparr>) =
              s\<lparr>filterState := t, heap := (heap s)(b \<mapsto> old\<lparr>filters := filterChain t,
                          applied := effective (filterChain t)\<rparr>)\<rparr>"
        using filterEffect_unfold [of "s\<lparr>filterState := t\<rparr>" cv b old] Some found old by simp
      ultimately show ?thesis by (simp add: e1)
    qed
  qed
qed

lemma handleFilterChange_twice:
  "handleFilterChange ty2 v2 (handleFilterChange ty1 v1 s) =
     filterEffect (s\<lparr>filterState := setFilter ty2 v2 (setFilter ty1 v1 (filterState s))\<rparr>)"
  by (simp add: handleFilterChange_def filterState_filterEffect filterEffect_absorb)

lemma setFilter_all_zero:
  "setFilter THue 0 (setFilter TSaturation 0 (setFilter TContrast 0 (setFilter TBrightness 0 t)))
     = noFilters"
  by (cases t) (simp add: noFilters_def)

lemma resetFilters_as_changes:
  "resetFilters s =
     handleFilterChange THue 0 (handleFilterChange TSaturation 0
       (handleFilterChange TContrast 0 (handleFilterChange TBrightness 0 s)))"
proof -
  let ?s1 = "handleFilterChange TBrightness 0 s"
  have a: "handleFilterChange TContrast 0 ?s1 =
        filterEffect (s\<lparr>filterState := setFilter TContrast 0 (setFilter TBrightness 0 (filterState s))\<rparr>)"
    by (rule handleFilterChange_twice)
  have b: "\<And>ty v x. handleFilterChange ty v (filterEffect x) =
        filterEffect (x\<lparr>filterState := setFilter ty v (filterState x)\<rparr>)"
    by (simp add: handleFilterChange_def filterState_filterEffect filterEffect_absorb)
  show ?thesis
    by (simp add: a b setFilter_all_zero resetFilters_def del: setFilter.simps)
qed


lemma session_filterEffect:
  fixes acts iw ih t
  defines "s \<equiv> (run acts (initCanvas iw ih))\<lparr>filterState := t\<rparr>"
  obtains cv rest old where "canvasRef s = Some cv" "objects cv = 0 # rest"
    "backgroundImage cv = Some 0" "heap s 0 = Some old" "klass old = FabricImage"
    "\<forall>i\<in>set rest. overlay s i" "0 \<notin> set rest"
    "filterEffect s = s\<lparr>heap := (heap s)(0 \<mapsto> old\<lparr>filters := filterChain t,
                                          applied := effective (filterChain t)\<rparr>)\<rparr>"
proof -
  let ?r = "run acts (initCanvas iw ih)"
  obtain cv rest where h: "canvasRef ?r = Some cv"
    "objects cv = 0 # rest" "backgroundImage cv = Some 0" "backgroundObject cv = None"
    "baseObject (heap ?r 0)"
    "\<forall>i\<in>set rest. overlay ?r i"
    "distinct (0 # rest)" "\<forall>i\<in>set (0 # rest). i < next_oid ?r"
    "\<forall>act. activeObject cv = Some act \<longrightarrow> act \<in> set rest"
    "cwidth cv = 1200" "cheight cv = 960"
    by (rule session_shape)
  from h(5) obtain old where old: "heap ?r 0 = Some old" "klass old = FabricImage"
    by (auto simp: baseObject_def split: option.splits)
  have c: "canvasRef s = Some cv" using h(1) by (simp add: s_def)
  have f: "find (is_Image (heap s)) (objects cv) = Some 0"
    using h(2) old by (simp add: s_def is_Image_def)
  have o: "heap s 0 = Some old" using old by (simp add: s_def)
  have ov: "\<forall>i\<in>set rest. overlay s i" using h(6) by (simp add: s_def overlay_def)
  have e: "filterEffect s = s\<lparr>heap := (heap s)(0 \<mapsto> old\<lparr>filters := filterChain t,
                                          applied := effective (filterChain t)\<rparr>)\<rparr>"
    using filterEffect_unfold [OF c f o] by (simp add: s_def)
  show thesis using that [OF c h(2,3) o old(2) ov _ e] h(7) by simp
qed

text \<open>
  C1: in every session state, a change to one tone parameter rebuilds the chain of the base
  image from nothing: exactly the four filters brightness, contrast, saturation and
  hue-rotation, in this order, each with the current value of its parameter, zero values
  included; the chain is applied to the base image, which is otherwise unchanged; no
  overlay element, nor any other object or the canvas, is modified.
\<close>

theorem tone_change_rebuilds_base_chain:
  "let s = run acts (initCanvas iw ih);
       s' = handleFilterChange ty v s;
       t' = setFilter ty v (filterState s)
   in \<exists>cv b rest old new.
        canvasRef s = Some cv \<and> objects cv = b # rest \<and> backgroundImage cv = Some b \<and>
        heap s b = Some old \<and> klass old = FabricImage \<and>
        filterState s' = t' \<and> heap s' b = Some new \<and>
        filters new = [Brightness (brightness t'), Contrast (contrast t'),
                       Saturation (saturation t'), HueRotation (hue t')] \<and>
        applied new = effective (filters new) \<and>
        new = old\<lparr>filters := filters new, applied := applied new\<rparr> \<and>
        (\<forall>i\<in>set rest. overlay s i \<and> heap s' i = heap s i) \<and>
        (\<forall>i. i \<noteq> b \<longrightarrow> heap s' i = heap s i) \<and>
        canvasRef s' = canvasRef s"
proof -
  let ?s = "run acts (initCanvas iw ih)"
  let ?t = "setFilter ty v (filterState ?s)"
  let ?x = "?s\<lparr>filterState := ?t\<rparr>"
  obtain cv rest old where h: "canvasRef ?x = Some cv" "objects cv = 0 # rest"
    "backgroundImage cv = Some 0" "heap ?x 0 = Some old" "klass old = FabricImage"
    "\<forall>i\<in>set rest. overlay ?x i" "0 \<notin> set rest"
    "filterEffect ?x = ?x\<lparr>heap := (heap ?x)(0 \<mapsto> old\<lparr>filters := filterChain ?t,
                                          applied := effective (filterChain ?t)\<rparr>)\<rparr>"
    by (rule session_filterEffect)
  let ?new = "old\<lparr>filters := filterChain ?t, applied := effective (filterChain ?t)\<rparr>"
  have e: "handleFilterChange ty v ?s = ?x\<lparr>heap := (heap ?s)(0 \<mapsto> ?new)\<rparr>"
    using h(8) by (simp add: handleFilterChange_def)
  have ov: "\<forall>i\<in>set rest. overlay ?s i" using h(6) by (simp add: overlay_def)
  have "canvasRef ?s = Some cv \<and> objects cv = 0 # rest \<and> backgroundImage cv = Some 0 \<and>
        heap ?s 0 = Some old \<and> klass old = FabricImage \<and>
        filterState (handleFilterChange ty v ?s) = ?t \<and>
        heap (handleFilterChange ty v ?s) 0 = Some ?new \<and>
        filters ?new = [Brightness (brightness ?t), Contrast (contrast ?t),
                       Saturation (saturation ?t), HueRotation (hue ?t)] \<and>
        applied ?new = effective (filters ?new) \<and>
        ?new = old\<lparr>filters := filters ?new, applied := applied ?new\<rparr> \<and>
        (\<forall>i\<in>set rest. overlay ?s i \<and> heap (handleFilterChange ty v ?s) i = heap ?s i) \<and>
        (\<forall>i. i \<noteq> 0 \<longrightarrow> heap (handleFilterChange ty v ?s) i = heap ?s i) \<and>
        canvasRef (handleFilterChange ty v ?s) = canvasRef ?s"
    using h(1-5,7) ov by (auto simp: e filterChain_def)
  then show ?thesis unfolding Let_def by blast
qed


lemma example_session_canvas:
  "canvasRef (run [AddSticker (SvgLoaded 50 40)] (initCanvas 2048 1536)) =
     Some (newCanvas\<lparr>objects := [0, 1], activeObject := Some 1, backgroundImage := Some 0\<rparr>)"
  "filterState (run [AddSticker (SvgLoaded 50 40)] (initCanvas 2048 1536)) = noFilters"
  by (simp_all add: run_def addSticker_def addSticker_loaded_def initCanvas_state Let_def
      setActiveObject_def canvas_add_def newCanvas_def)

theorem tone_change_rebuilds_base_chain_witness:
  "map_option filters
     (heap (handleFilterChange TContrast (1 / 4)
              (run [AddSticker (SvgLoaded 50 40)] (initCanvas 2048 1536))) 0) =
     Some [Brightness 0, Contrast (1 / 4), Saturation 0, HueRotation 0] \<and>
   (1::nat) \<noteq> 0 \<and>
   heap (handleFilterChange TContrast (1 / 4)
           (run [AddSticker (SvgLoaded 50 40)] (initCanvas 2048 1536))) 1 =
     heap (run [AddSticker (SvgLoaded 50 40)] (initCanvas 2048 1536)) 1"
proof -
  let ?s = "run [AddSticker (SvgLoaded 50 40)] (initCanvas 2048 1536)"
  let ?s' = "handleFilterChange TContrast (1 / 4) ?s"
  let ?t = "setFilter TContrast (1 / 4) (filterState ?s)"
  obtain cv b new where h: "canvasRef ?s = Some cv" "backgroundImage cv = Some b"
    "heap ?s' b = Some new"
    "filters new = [Brightness (brightness ?t), Contrast (contrast ?t),
                    Saturation (saturation ?t), HueRotation (hue ?t)]"
    "\<forall>i. i \<noteq> b \<longrightarrow> heap ?s' i = heap ?s i"
    using tone_change_rebuilds_base_chain [of "[AddSticker (SvgLoaded 50 40)]" 2048 1536
        TContrast "1 / 4"]
    unfolding Let_def by blast
  from h(1,2) have b: "b = 0" by (auto simp: example_session_canvas)
  have "filters new = [Brightness 0, Contrast (1 / 4), Saturation 0, HueRotation 0]"
    using h(4) by (simp add: example_session_canvas noFilters_def)
  with h(3) b have 1: "map_option filters (heap ?s' 0) =
      Some [Brightness 0, Contrast (1 / 4), Saturation 0, HueRotation 0]" by simp
  from h(5) b have 2: "heap ?s' 1 = heap ?s 1" by simp
  from 1 2 show ?thesis by simp
qed

text \<open>
  C2: after any session, a reset leaves the base image with a chain equivalent to the one it
  has right after initialisation, and with the same filters baked in; reset is the
  recompute step on the zeroed parameters, which is what assigning zero to the four
  parameters in turn gives.
\<close>

theorem reset_restores_initial_chain:
  "\<exists>cv b ob0 ob.
     canvasRef (initCanvas iw ih) = Some cv \<and> backgroundImage cv = Some b \<and>
     heap (initCanvas iw ih) b = Some ob0 \<and>
     heap (resetFilters (run acts (initCanvas iw ih))) b = Some ob \<and>
     chain_equiv (filters ob) (filters ob0) \<and> applied ob = applied ob0 \<and>
     filterState (resetFilters (run acts (initCanvas iw ih))) = noFilters \<and>
     resetFilters s = filterEffect (s\<lparr>filterState := noFilters\<rparr>) \<and>
     handleFilterChange ty v s = filterEffect (s\<lparr>filterState := setFilter ty v (filterState s)\<rparr>) \<and>
     resetFilters s =
       handleFilterChange THue 0 (handleFilterChange TSaturation 0
         (handleFilterChange TContrast 0 (handleFilterChange TBrightness 0 s)))"
proof -
  let ?r = "run acts (initCanvas iw ih)"
  let ?x = "?r\<lparr>filterState := noFilters\<rparr>"
  obtain cv rest old where h: "canvasRef ?x = Some cv" "objects cv = 0 # rest"
    "backgroundImage cv = Some 0" "heap ?x 0 = Some old" "klass old = FabricImage"
    "\<forall>i\<in>set rest. overlay ?x i" "0 \<notin> set rest"
    "filterEffect ?x = ?x\<lparr>heap := (heap ?x)(0 \<mapsto> old\<lparr>filters := filterChain noFilters,
                                          applied := effective (filterChain noFilters)\<rparr>)\<rparr>"
    by (rule session_filterEffect)
  let ?new = "old\<lparr>filters := filterChain noFilters,
                   applied := effective (filterChain noFilters)\<rparr>"
  have z: "effective (filterChain noFilters) = []"
    by (simp add: effective_def filterChain_def noFilters_def)
  have r: "resetFilters ?r = ?x\<lparr>heap := (heap ?r)(0 \<mapsto> ?new)\<rparr>"
    using h(8) by (simp add: resetFilters_def)
  have 1: "heap (resetFilters ?r) 0 = Some ?new" by (simp add: r)
  have 2: "chain_equiv (filters ?new) []" using z by (simp add: chain_equiv_def effective_def)
  have 3: "applied ?new = []" using z by simp
  have 4: "filterState (resetFilters ?r) = noFilters" by (simp add: r)
  show ?thesis
    using 1 2 3 4 resetFilters_as_changes [of s]
    by (simp add: initCanvas_state newObject_def resetFilters_def handleFilterChange_def)
qed

theorem reset_restores_initial_chain_witness:
  "map_option filters
     (heap (resetFilters (run [FilterChange TBrightness (1 / 2), FilterChange THue 90]
                            (initCanvas 2048 1536))) 0) =
     Some [Brightness 0, Contrast 0, Saturation 0, HueRotation 0] \<and>
   map_option applied
     (heap (resetFilters (run [FilterChange TBrightness (1 / 2), FilterChange THue 90]
                            (initCanvas 2048 1536))) 0) = Some [] \<and>
   map_option applied (heap (initCanvas 2048 1536) 0) = Some []"
proof -
  let ?s = "resetFilters (run [FilterChange TBrightness (1 / 2), FilterChange THue 90]
                            (initCanvas 2048 1536))"
  obtain cv b ob0 ob where h: "canvasRef (initCanvas 2048 1536) = Some cv"
    "backgroundImage cv = Some b" "heap (initCanvas 2048 1536) b = Some ob0"
    "heap ?s b = Some ob" "applied ob = applied ob0"
    using reset_restores_initial_chain
      [of 2048 1536 "[FilterChange TBrightness (1 / 2), FilterChange THue 90]"]
    by blast
  from h(1,2) have b: "b = 0" by (auto simp: initCanvas_state)
  from h(3) b have 0: "applied ob0 = []" by (auto simp: initCanvas_state newObject_def)
  have f: "map_option filters (heap ?s 0) =
      Some [Brightness 0, Contrast 0, Saturation 0, HueRotation 0]"
    by (simp add: run_def handleFilterChange_def resetFilters_def filterEffect_def
        initCanvas_state getObjects_def is_Image_def newObject_def newCanvas_def Let_def
        applyFilters_def noFilters_def)
  from h(3,4,5) b 0 f show ?thesis by simp
qed

section \<open>The base image on the surface\<close>

text \<open>
  C10: initialisation registers the one base image twice, in the element list and as the
  background image; in every later state of the session the element list still holds
  it, and the search for the first image of the list, as the filter effect and
  send-to-back do it, finds it.
\<close>

theorem base_image_registered_twice:
  "\<exists>cv0 b cv.
     canvasRef (initCanvas iw ih) = Some cv0 \<and> getObjects cv0 = [b] \<and>
     backgroundImage cv0 = Some b \<and> is_Image (heap (initCanvas iw ih)) b \<and>
     canvasRef (run acts (initCanvas iw ih)) = Some cv \<and>
     backgroundImage cv = Some b \<and> b \<in> set (getObjects cv) \<and>
     find (is_Image (heap (run acts (initCanvas iw ih)))) (getObjects cv) = Some b"
proof -
  let ?s = "run acts (initCanvas iw ih)"
  obtain cv rest where h: "canvasRef ?s = Some cv"
    "objects cv = 0 # rest" "backgroundImage cv = Some 0" "backgroundObject cv = None"
    "baseObject (heap ?s 0)"
    by (rule session_shape)
  have "is_Image (heap ?s) 0" using h(5) by (rule baseObject_is_Image)
  then have "find (is_Image (heap ?s)) (getObjects cv) = Some 0"
    using h(2) by (simp add: getObjects_def)
  then show ?thesis
    using h(1,2,3)
    by (simp add: initCanvas_state getObjects_def is_Image_def newObject_def)
qed

theorem base_image_registered_twice_witness:
  "map_option getObjects
     (canvasRef (run [AddSticker (SvgLoaded 50 40), AddSticker (SvgLoaded 200 100),
                      SendToBackClick, DeleteClick] (initCanvas 2048 1536))) = Some [0, 1] \<and>
   find (is_Image (heap (run [AddSticker (SvgLoaded 50 40), AddSticker (SvgLoaded 200 100),
                      SendToBackClick, DeleteClick] (initCanvas 2048 1536)))) [0, 1] = Some 0"
proof -
  let ?s = "run [AddSticker (SvgLoaded 50 40), AddSticker (SvgLoaded 200 100),
                      SendToBackClick, DeleteClick] (initCanvas 2048 1536)"
  have o: "map_option getObjects (canvasRef ?s) = Some [0, 1]"
    by (simp add: run_def addSticker_def addSticker_loaded_def initCanvas_state Let_def
        setActiveObject_def canvas_add_def newCanvas_def sendStickerToBack_def
        getActiveObject_def sendToBack_def getObjects_def is_Image_def
        groupSVGElements_def newObject_def deleteSelectedSticker_def canvas_remove_def)
  obtain cv0 b cv where h: "canvasRef (initCanvas 2048 1536) = Some cv0"
    "backgroundImage cv0 = Some b" "canvasRef ?s = Some cv"
    "find (is_Image (heap ?s)) (getObjects cv) = Some b"
    using base_image_registered_twice [of 2048 1536 "[AddSticker (SvgLoaded 50 40),
      AddSticker (SvgLoaded 200 100), SendToBackClick, DeleteClick]"]
    by blast
  from h(1,2) have b: "b = 0" by (auto simp: initCanvas_state)
  from o h(3) have "getObjects cv = [0, 1]" by simp
  with h(4) b o show ?thesis by simp
qed

section \<open>Send to back\<close>

text \<open>
  C4: in a session state with an active object, that object is an overlay above the base
  image; send-to-back works in two steps. The first puts the overlay at the very back,
  below the base image; the second finds the base image and sends it to the very back.
  Afterwards the base image is the lowest element, the selected overlay the one right
  above it and so the lowest overlay, and the other overlays keep their order above.
\<close>

theorem sendStickerToBack_two_steps:
  assumes "canvasRef (run acts (initCanvas iw ih)) = Some cv"
    and "getActiveObject cv = Some act"
  shows "\<exists>b rest.
     getObjects cv = b # rest \<and> backgroundImage cv = Some b \<and>
     is_Image (heap (run acts (initCanvas iw ih))) b \<and>
     act \<in> set rest \<and> overlay (run acts (initCanvas iw ih)) act \<and>
     getObjects (sendToBack act cv) = act # b # remove1 act rest \<and>
     find (is_Image (heap (run acts (initCanvas iw ih)))) (getObjects (sendToBack act cv)) = Some b \<and>
     sendStickerToBack (run acts (initCanvas iw ih)) =
       (run acts (initCanvas iw ih))\<lparr>canvasRef := Some (sendToBack b (sendToBack act cv))\<rparr> \<and>
     getObjects (sendToBack b (sendToBack act cv)) = b # act # remove1 act rest \<and>
     list_all (overlay (sendStickerToBack (run acts (initCanvas iw ih)))) (act # remove1 act rest) \<and>
     set (act # remove1 act rest) = set rest \<and> distinct (b # act # remove1 act rest) \<and>
     getActiveObject (sendToBack b (sendToBack act cv)) = Some act"
proof -
  let ?s = "run acts (initCanvas iw ih)"
  obtain cv' rest where h': "canvasRef ?s = Some cv'"
    "objects cv' = 0 # rest" "backgroundImage cv' = Some 0" "backgroundObject cv' = None"
    "baseObject (heap ?s 0)"
    "\<forall>i\<in>set rest. overlay ?s i"
    "distinct (0 # rest)" "\<forall>i\<in>set (0 # rest). i < next_oid ?s"
    "\<forall>act. activeObject cv' = Some act \<longrightarrow> act \<in> set rest"
    by (rule session_shape)
  from h'(1) assms(1) have "cv' = cv" by simp
  note h = h' [unfolded this]
  have act: "activeObject cv = Some act" using assms(2) by (simp add: getActiveObject_def)
  with h(9) have a: "act \<in> set rest" by simp
  with h(6) have ov: "overlay ?s act" by simp
  note st = sendStickerToBack_steps [OF h(1,2,4,5) ov act a]
  have img: "is_Image (heap ?s) 0" using h(5) by (rule baseObject_is_Image)
  have set_eq: "set (act # remove1 act rest) = set rest" using a h(7) by auto
  have "0 \<notin> set rest" using h(7) by simp
  with a have ne: "act \<noteq> 0" by metis
  then have dist: "distinct (0 # act # remove1 act rest)" using a h(7) by auto
  have ovs: "list_all (overlay (sendStickerToBack ?s)) (act # remove1 act rest)"
    using h(6) set_eq by (simp add: st(3) overlay_def list_all_iff)
  have ga: "getActiveObject (sendToBack 0 (sendToBack act cv)) = Some act"
    using act by (simp add: getActiveObject_def sendToBack_def)
  show ?thesis
    using h(2,3) img a ov st ovs set_eq dist ga ne by (simp add: getObjects_def)
qed

theorem sendStickerToBack_two_steps_witness:
  "map_option getActiveObject
     (canvasRef (run [AddSticker (SvgLoaded 50 40), AddSticker (SvgLoaded 200 100)]
                   (initCanvas 2048 1536))) = Some (Some 2) \<and>
   map_option getObjects
     (canvasRef (run [AddSticker (SvgLoaded 50 40), AddSticker (SvgLoaded 200 100)]
                   (initCanvas 2048 1536))) = Some [0, 1, 2] \<and>
   map_option getObjects
     (canvasRef (sendStickerToBack
        (run [AddSticker (SvgLoaded 50 40), AddSticker (SvgLoaded 200 100)]
           (initCanvas 2048 1536)))) = Some [0, 2, 1]"
proof -
  let ?s = "run [AddSticker (SvgLoaded 50 40), AddSticker (SvgLoaded 200 100)]
              (initCanvas 2048 1536)"
  let ?cv = "newCanvas\<lparr>objects := [0, 1, 2], activeObject := Some 2,
                        backgroundImage := Some 0\<rparr>"
  have c: "canvasRef ?s = Some ?cv"
    by (simp add: run_def addSticker_def addSticker_loaded_def initCanvas_state Let_def
        setActiveObject_def canvas_add_def newCanvas_def)
  have a: "getActiveObject ?cv = Some 2" by (simp add: getActiveObject_def)
  obtain b rest where h: "getObjects ?cv = b # rest"
    "sendStickerToBack ?s = ?s\<lparr>canvasRef := Some (sendToBack b (sendToBack 2 ?cv))\<rparr>"
    "getObjects (sendToBack b (sendToBack 2 ?cv)) = b # 2 # remove1 2 rest"
    using sendStickerToBack_two_steps [OF c a] by blast
  from h(1) have "b = 0" "rest = [1, 2]" by (simp_all add: getObjects_def)
  with h(2,3) have "map_option getObjects (canvasRef (sendStickerToBack ?s)) = Some [0, 2, 1]"
    by simp
  with c a show ?thesis by (simp add: getObjects_def)
qed

section \<open>Placement\<close>

lemma addSticker_object:
  assumes "canvasRef s = Some cv"
  shows "heap (addSticker (SvgLoaded w h) s) (next_oid s) =
           Some ((newObject FabricGroup w h)
             \<lparr>oleft := real (if cwidth cv = 0 then 1200 else cwidth cv) / 2,
              otop := real (if cheight cv = 0 then 960 else cheight cv) / 2,
              scaleX := jsdiv 100 w, scaleY := jsdiv 100 w,
              cornerSize := 10, cornerColor := ''white'', cornerStrokeColor := ''#aaa'',
              borderColor := ''#aaa'', transparentCorners := False,
              originX := ''center'', originY := ''center''\<rparr>)"
  using assms
  by (simp add: addSticker_def addSticker_loaded_def Let_def groupSVGElements_def
      newObject_def)

lemma run_placements:
  assumes "canvasRef s = Some cv"
  shows "\<exists>cv'. canvasRef (run (placements ps) s) = Some cv' \<and>
           objects cv' = objects cv @ [next_oid s ..< next_oid s + length ps] \<and>
           activeObject cv' =
             (if ps = [] then activeObject cv else Some (next_oid s + length ps - 1))"
  using assms
proof (induction ps arbitrary: s cv)
  case Nil
  then show ?case by (simp add: run_def placements_def)
next
  case (Cons p ps)
  obtain w h where p: "p = (w, h)" by (cases p)
  let ?s1 = "addSticker (SvgLoaded w h) s"
  let ?cv1 = "cv\<lparr>objects := objects cv @ [next_oid s], activeObject := Some (next_oid s)\<rparr>"
  have c1: "canvasRef ?s1 = Some ?cv1" and n1: "next_oid ?s1 = Suc (next_oid s)"
    using addSticker_canvas(1,2) [OF Cons.prems] by simp_all
  from Cons.IH [OF c1] obtain cv' where
    h: "canvasRef (run (placements ps) ?s1) = Some cv'"
       "objects cv' = objects ?cv1 @ [next_oid ?s1 ..< next_oid ?s1 + length ps]"
       "activeObject cv' =
          (if ps = [] then activeObject ?cv1 else Some (next_oid ?s1 + length ps - 1))"
    by blast
  have r: "run (placements (p # ps)) s = run (placements ps) ?s1"
    by (simp add: run_def placements_def p)
  have "[next_oid s ..< next_oid s + Suc (length ps)] =
          next_oid s # [Suc (next_oid s) ..< Suc (next_oid s) + length ps]"
    by (subst upt_rec) simp
  then have o: "objects cv' = objects cv @ [next_oid s ..< next_oid s + length (p # ps)]"
    using h(2) n1 by simp
  have a: "activeObject cv' = Some (next_oid s + length (p # ps) - 1)"
    using h(3) n1 by simp
  show ?case using h(1) o a by (simp add: r)
qed


text \<open>
  C5: in a session state, a placement whose graphic loaded adds exactly one element, on
  top of the others: the group, scaled by the same factor 100 / width in both directions
  (so a graphic of positive width is shown 100 units wide, in its own proportions),
  centred on the surface midpoint, with the handle styling of the source, and active.
  After N such placements on the initialised surface the element list is the base image
  followed by N overlays, and the last one placed is the active object.
\<close>

theorem addSticker_places_overlay:
  "(let s = run acts (initCanvas iw ih); s' = addSticker (SvgLoaded w h) s
    in \<exists>cv cv' g ob.
         canvasRef s = Some cv \<and> canvasRef s' = Some cv' \<and>
         getObjects cv' = getObjects cv @ [g] \<and> g \<notin> set (getObjects cv) \<and>
         length (getObjects cv') = Suc (length (getObjects cv)) \<and>
         getActiveObject cv' = Some g \<and> selectedSticker s' \<and>
         heap s' g = Some ob \<and> overlay s' g \<and> owidth ob = w \<and> oheight ob = h \<and>
         scaleX ob = jsdiv 100 w \<and> scaleY ob = scaleX ob \<and>
         (0 < w \<longrightarrow> scaleX ob = Fin (100 / w) \<and> w * (100 / w) = 100) \<and>
         oleft ob = real (cwidth cv) / 2 \<and> otop ob = real (cheight cv) / 2 \<and>
         originX ob = ''center'' \<and> originY ob = ''center'' \<and>
         cornerSize ob = 10 \<and> cornerColor ob = ''white'' \<and>
         cornerStrokeColor ob = ''#aaa'' \<and> borderColor ob = ''#aaa'' \<and>
         \<not> transparentCorners ob \<and> selectable ob \<and> evented ob \<and>
         (\<forall>i. i \<noteq> g \<longrightarrow> heap s' i = heap s i)) \<and>
   (let sN = run (placements ps) (initCanvas iw ih)
    in \<exists>cv b gs.
         canvasRef sN = Some cv \<and> getObjects cv = b # gs \<and> backgroundImage cv = Some b \<and>
         is_Image (heap sN) b \<and> length gs = length ps \<and> list_all (overlay sN) gs \<and>
         distinct (b # gs) \<and>
         getActiveObject cv = (if ps = [] then None else Some (last gs)))"
proof -
  let ?s = "run acts (initCanvas iw ih)"
  let ?s' = "addSticker (SvgLoaded w h) ?s"
  obtain cv rest where h: "canvasRef ?s = Some cv"
    "objects cv = 0 # rest" "backgroundImage cv = Some 0" "backgroundObject cv = None"
    "baseObject (heap ?s 0)"
    "\<forall>i\<in>set rest. overlay ?s i"
    "distinct (0 # rest)" "\<forall>i\<in>set (0 # rest). i < next_oid ?s"
    "\<forall>act. activeObject cv = Some act \<longrightarrow> act \<in> set rest"
    "cwidth cv = 1200" "cheight cv = 960"
    by (rule session_shape)
  let ?g = "next_oid ?s"
  let ?cv' = "cv\<lparr>objects := objects cv @ [?g], activeObject := Some ?g\<rparr>"
  let ?ob = "(newObject FabricGroup w h)
             \<lparr>oleft := real (if cwidth cv = 0 then 1200 else cwidth cv) / 2,
              otop := real (if cheight cv = 0 then 960 else cheight cv) / 2,
              scaleX := jsdiv 100 w, scaleY := jsdiv 100 w,
              cornerSize := 10, cornerColor := ''white'', cornerStrokeColor := ''#aaa'',
              borderColor := ''#aaa'', transparentCorners := False,
              originX := ''center'', originY := ''center''\<rparr>"
  have fresh: "?g \<notin> set (getObjects cv)" using h(2,8) by (auto simp: getObjects_def)
  have c': "canvasRef ?s' = Some ?cv'" by (rule addSticker_canvas(1) [OF h(1)])
  have sel: "selectedSticker ?s'" by (rule addSticker_canvas(3) [OF h(1)])
  have ob: "heap ?s' ?g = Some ?ob" by (rule addSticker_object [OF h(1)])
  have others: "\<forall>i. i \<noteq> ?g \<longrightarrow> heap ?s' i = heap ?s i"
    using addSticker_heap(1) [OF h(1)] by blast
  have ov: "overlay ?s' ?g" by (simp add: overlay_def ob newObject_def)
  have sc: "0 < w \<longrightarrow> scaleX ?ob = Fin (100 / w) \<and> w * (100 / w) = 100"
    by (simp add: jsdiv_def)
  have part1: "\<exists>cv cv' g ob.
         canvasRef ?s = Some cv \<and> canvasRef ?s' = Some cv' \<and>
         getObjects cv' = getObjects cv @ [g] \<and> g \<notin> set (getObjects cv) \<and>
         length (getObjects cv') = Suc (length (getObjects cv)) \<and>
         getActiveObject cv' = Some g \<and> selectedSticker ?s' \<and>
         heap ?s' g = Some ob \<and> overlay ?s' g \<and> owidth ob = w \<and> oheight ob = h \<and>
         scaleX ob = jsdiv 100 w \<and> scaleY ob = scaleX ob \<and>
         (0 < w \<longrightarrow> scaleX ob = Fin (100 / w) \<and> w * (100 / w) = 100) \<and>
         oleft ob = real (cwidth cv) / 2 \<and> otop ob = real (cheight cv) / 2 \<and>
         originX ob = ''center'' \<and> originY ob = ''center'' \<and>
         cornerSize ob = 10 \<and> cornerColor ob = ''white'' \<and>
         cornerStrokeColor ob = ''#aaa'' \<and> borderColor ob = ''#aaa'' \<and>
         \<not> transparentCorners ob \<and> selectable ob \<and> evented ob \<and>
         (\<forall>i. i \<noteq> g \<longrightarrow> heap ?s' i = heap ?s i)"
    apply (rule exI [of _ cv], rule exI [of _ ?cv'], rule exI [of _ ?g], rule exI [of _ ?ob])
    using h(1,10,11) c' fresh sel ob ov others sc
    by (simp add: getObjects_def getActiveObject_def newObject_def)
  let ?sN = "run (placements ps) (initCanvas iw ih)"
  obtain cvN restN where k: "canvasRef ?sN = Some cvN"
    "objects cvN = 0 # restN" "backgroundImage cvN = Some 0" "backgroundObject cvN = None"
    "baseObject (heap ?sN 0)"
    "\<forall>i\<in>set restN. overlay ?sN i"
    "distinct (0 # restN)"
    by (rule session_shape)
  have c0: "canvasRef (initCanvas iw ih) =
              Some (newCanvas\<lparr>objects := [0], backgroundImage := Some 0\<rparr>)"
    by (rule initCanvas_state)
  from run_placements [OF c0, of ps] k(1)
  have o: "objects cvN = [0] @ [1 ..< 1 + length ps]"
    and a: "activeObject cvN = (if ps = [] then None else Some (1 + length ps - 1))"
    by (auto simp: initCanvas_state newCanvas_def)
  from o k(2) have "0 # restN = 0 # [1 ..< 1 + length ps]"
    by (simp only: append_Cons append_Nil)
  then have rn: "restN = [1 ..< 1 + length ps]" by (simp only: list.inject)
  have len: "length restN = length ps" by (simp add: rn del: upt_Suc)
  have lst: "ps \<noteq> [] \<Longrightarrow> last restN = length ps" by (cases ps) (simp_all add: rn)
  have part2: "\<exists>cv b gs.
         canvasRef ?sN = Some cv \<and> getObjects cv = b # gs \<and> backgroundImage cv = Some b \<and>
         is_Image (heap ?sN) b \<and> length gs = length ps \<and> list_all (overlay ?sN) gs \<and>
         distinct (b # gs) \<and>
         getActiveObject cv = (if ps = [] then None else Some (last gs))"
    apply (rule exI [of _ cvN], rule exI [of _ 0], rule exI [of _ restN])
    using k baseObject_is_Image [of "heap ?sN" 0] len lst a
    by (auto simp: getObjects_def getActiveObject_def list_all_iff)
  show ?thesis unfolding Let_def using part1 part2 by blast
qed


theorem addSticker_places_overlay_witness:
  "(0::real) < 50 \<and>
   map_option scaleX
     (heap (addSticker (SvgLoaded 50 40) (run [] (initCanvas 2048 1536))) 1) = Some (Fin 2) \<and>
   map_option getObjects
     (canvasRef (run (placements [(50, 40), (200, 100)]) (initCanvas 2048 1536))) =
     Some [0, 1, 2] \<and>
   map_option getActiveObject
     (canvasRef (run (placements [(50, 40), (200, 100)]) (initCanvas 2048 1536))) =
     Some (Some 2)"
proof -
  let ?s = "run [] (initCanvas 2048 1536)"
  let ?s' = "addSticker (SvgLoaded 50 40) ?s"
  let ?sN = "run (placements [(50, 40), (200, 100)]) (initCanvas 2048 1536)"
  note inst = addSticker_places_overlay [of "[]" 2048 1536 50 40 "[(50, 40), (200, 100)]",
      unfolded Let_def]
  have pos: "(0::real) < 50" by simp
  have c: "canvasRef ?s = Some (newCanvas\<lparr>objects := [0], backgroundImage := Some 0\<rparr>)"
    by (simp add: run_def initCanvas_state)
  have c': "map_option getObjects (canvasRef ?s') = Some [0, 1]"
    by (simp add: run_def addSticker_def addSticker_loaded_def initCanvas_state Let_def
        setActiveObject_def canvas_add_def newCanvas_def getObjects_def)
  from inst obtain cv cv' g ob where h: "canvasRef ?s = Some cv" "canvasRef ?s' = Some cv'"
    "getObjects cv' = getObjects cv @ [g]" "heap ?s' g = Some ob"
    "0 < (50::real) \<longrightarrow> scaleX ob = Fin (100 / 50) \<and> (50::real) * (100 / 50) = 100"
    by blast
  from h(1) c have "getObjects cv = [0]" by (auto simp: getObjects_def)
  with h(2,3) c' have g: "g = 1" by simp
  from h(5) pos have "scaleX ob = Fin 2" by simp
  with h(4) g have 1: "map_option scaleX (heap ?s' 1) = Some (Fin 2)" by simp
  have o: "map_option getObjects (canvasRef ?sN) = Some [0, 1, 2]"
    by (simp add: placements_def run_def addSticker_def addSticker_loaded_def
        initCanvas_state Let_def setActiveObject_def canvas_add_def newCanvas_def
        getObjects_def)
  from inst obtain cvN b gs where k: "canvasRef ?sN = Some cvN" "getObjects cvN = b # gs"
    "getActiveObject cvN =
       (if [(50::real, 40::real), (200, 100)] = [] then None else Some (last gs))"
    by blast
  from o k(1,2) have "gs = [1, 2]" by simp
  with k(1,3) have 2: "map_option getActiveObject (canvasRef ?sN) = Some (Some 2)" by simp
  from pos 1 o 2 show ?thesis by simp
qed

section \<open>Deletion\<close>

lemma backgroundObject_filterEffect:
  "map_option backgroundObject (canvasRef (filterEffect s)) =
     map_option backgroundObject (canvasRef s)"
  by (simp add: filterEffect_def Let_def split: option.splits)

lemma backgroundObject_step:
  "map_option backgroundObject (canvasRef (step a s)) =
     map_option backgroundObject (canvasRef s)"
proof (cases a)
  case (AddSticker r)
  then show ?thesis
    by (simp add: addSticker_def addSticker_loaded_def Let_def setActiveObject_def
        canvas_add_def split: option.splits)
next
  case (FilterChange ty v)
  then show ?thesis by (simp add: handleFilterChange_def backgroundObject_filterEffect)
next
  case ResetFilters
  then show ?thesis by (simp add: resetFilters_def backgroundObject_filterEffect)
next
  case DeleteClick
  then show ?thesis
    by (simp add: deleteSelectedSticker_def canvas_remove_def split: option.splits)
next
  case (KeyDown key)
  then show ?thesis by (simp add: handleKeyDown_def canvas_remove_def split: option.splits)
next
  case SendToBackClick
  then show ?thesis
    by (simp add: sendStickerToBack_def sendToBack_def Let_def split: option.splits)
next
  case (UserSelect i)
  then show ?thesis by (simp add: userSelect_def setActiveObject_def split: option.splits)
next
  case UserDeselect
  then show ?thesis by (simp add: userDeselect_def discardActiveObject_def split: option.splits)
qed

text \<open>
  C9: no handler assigns \<open>backgroundObject\<close>, so it stays undefined. Then, whenever there is
  an active object, the guard of both delete handlers holds and the handler removes the
  active object from the surface, whatever object it is, and clears the selection. In a
  session the base image is never the active object, and pointing at it selects nothing:
  this alone, not the guard, keeps it from being deleted.
\<close>

theorem delete_guard_always_passes:
  assumes "canvasRef s = Some cv" and "backgroundObject cv = None"
    and "getActiveObject cv = Some act"
  shows "Some act \<noteq> backgroundObject cv \<and>
     deleteSelectedSticker s =
       s\<lparr>canvasRef := Some (canvas_remove act cv), selectedSticker := False\<rparr> \<and>
     handleKeyDown ''Delete'' s = deleteSelectedSticker s \<and>
     handleKeyDown ''Backspace'' s = deleteSelectedSticker s \<and>
     (act \<in> set (getObjects cv) \<longrightarrow>
        getObjects (canvas_remove act cv) = remove1 act (getObjects cv) \<and>
        getActiveObject (canvas_remove act cv) = None) \<and>
     map_option backgroundObject (canvasRef (step a s)) = Some None \<and>
     (\<exists>cv' b. canvasRef (run acts (initCanvas iw ih)) = Some cv' \<and>
        backgroundObject cv' = None \<and> backgroundImage cv' = Some b \<and>
        getActiveObject cv' \<noteq> Some b \<and>
        userSelect b (run acts (initCanvas iw ih)) = run acts (initCanvas iw ih))"
proof -
  have 1: "deleteSelectedSticker s =
       s\<lparr>canvasRef := Some (canvas_remove act cv), selectedSticker := False\<rparr>"
    using assms by (simp add: deleteSelectedSticker_def)
  have 2: "handleKeyDown ''Delete'' s = deleteSelectedSticker s"
    "handleKeyDown ''Backspace'' s = deleteSelectedSticker s"
    by (simp_all add: handleKeyDown_eq)
  have 3: "act \<in> set (getObjects cv) \<longrightarrow>
        getObjects (canvas_remove act cv) = remove1 act (getObjects cv) \<and>
        getActiveObject (canvas_remove act cv) = None"
    using assms(3) by (simp add: getObjects_def getActiveObject_def canvas_remove_def)
  have 4: "map_option backgroundObject (canvasRef (step a s)) = Some None"
    using assms(1,2) by (simp add: backgroundObject_step)
  let ?r = "run acts (initCanvas iw ih)"
  obtain cv' rest where h: "canvasRef ?r = Some cv'"
    "objects cv' = 0 # rest" "backgroundImage cv' = Some 0" "backgroundObject cv' = None"
    "baseObject (heap ?r 0)"
    "\<forall>i\<in>set rest. overlay ?r i"
    "distinct (0 # rest)" "\<forall>i\<in>set (0 # rest). i < next_oid ?r"
    "\<forall>act. activeObject cv' = Some act \<longrightarrow> act \<in> set rest"
    by (rule session_shape)
  have na: "getActiveObject cv' \<noteq> Some 0"
    using h(7,9) by (auto simp: getActiveObject_def)
  have us: "userSelect 0 ?r = ?r"
    using h(1,5) by (auto simp: userSelect_def baseObject_def split: option.splits)
  have 5: "\<exists>cv' b. canvasRef ?r = Some cv' \<and>
        backgroundObject cv' = None \<and> backgroundImage cv' = Some b \<and>
        getActiveObject cv' \<noteq> Some b \<and> userSelect b ?r = ?r"
    using h(1,3,4) na us by blast
  show ?thesis using assms(2) 1 2 3 4 5 by simp
qed

theorem delete_guard_always_passes_witness:
  "map_option getActiveObject (canvasRef (selectByProgram 0 (initCanvas 2048 1536))) =
     Some (Some 0) \<and>
   is_Image (heap (selectByProgram 0 (initCanvas 2048 1536))) 0 \<and>
   map_option getObjects (canvasRef (selectByProgram 0 (initCanvas 2048 1536))) = Some [0] \<and>
   map_option getObjects
     (canvasRef (deleteSelectedSticker (selectByProgram 0 (initCanvas 2048 1536)))) = Some []"
proof -
  let ?s = "selectByProgram 0 (initCanvas 2048 1536)"
  let ?cv = "newCanvas\<lparr>objects := [0], activeObject := Some 0, backgroundImage := Some 0\<rparr>"
  have c: "canvasRef ?s = Some ?cv"
    by (simp add: selectByProgram_def initCanvas_state setActiveObject_def)
  have b: "backgroundObject ?cv = None" by (simp add: newCanvas_def)
  have a: "getActiveObject ?cv = Some 0" by (simp add: getActiveObject_def)
  have i: "is_Image (heap ?s) 0"
    by (simp add: selectByProgram_def initCanvas_state is_Image_def newObject_def)
  have m: "0 \<in> set (getObjects ?cv)" by (simp add: getObjects_def)
  from delete_guard_always_passes [OF c b a] m
  have d: "deleteSelectedSticker ?s =
       ?s\<lparr>canvasRef := Some (canvas_remove 0 ?cv), selectedSticker := False\<rparr>"
    and r: "getObjects (canvas_remove 0 ?cv) = remove1 0 (getObjects ?cv)"
    by blast+
  have "map_option getObjects (canvasRef (deleteSelectedSticker ?s)) = Some []"
    by (simp add: d r) (simp add: getObjects_def)
  with c a i show ?thesis by (simp add: getObjects_def)
qed

text \<open>
  What deletion does in a session: with no selection nothing changes; with a selected
  overlay the element list loses exactly that element and the selection is cleared.
\<close>

lemma delete_in_session:
  assumes "canvasRef (run acts (initCanvas iw ih)) = Some cv"
  shows "getActiveObject cv = None \<Longrightarrow>
           deleteSelectedSticker (run acts (initCanvas iw ih)) = run acts (initCanvas iw ih)"
    and "getActiveObject cv = Some act \<Longrightarrow>
           \<exists>cv'. canvasRef (deleteSelectedSticker (run acts (initCanvas iw ih))) = Some cv' \<and>
             overlay (run acts (initCanvas iw ih)) act \<and>
             getObjects cv' = remove1 act (getObjects cv) \<and>
             Suc (length (getObjects cv')) = length (getObjects cv) \<and>
             act \<notin> set (getObjects cv') \<and>
             getActiveObject cv' = None \<and>
             \<not> selectedSticker (deleteSelectedSticker (run acts (initCanvas iw ih)))"
proof -
  let ?s = "run acts (initCanvas iw ih)"
  obtain cv' rest where h': "canvasRef ?s = Some cv'"
    "objects cv' = 0 # rest" "backgroundImage cv' = Some 0" "backgroundObject cv' = None"
    "baseObject (heap ?s 0)"
    "\<forall>i\<in>set rest. overlay ?s i"
    "distinct (0 # rest)" "\<forall>i\<in>set (0 # rest). i < next_oid ?s"
    "\<forall>act. activeObject cv' = Some act \<longrightarrow> act \<in> set rest"
    by (rule session_shape)
  from h'(1) assms have "cv' = cv" by simp
  note h = h' [unfolded this]
  show "getActiveObject cv = None \<Longrightarrow> deleteSelectedSticker ?s = ?s"
    using h(1) by (simp add: deleteSelectedSticker_def)
  assume a: "getActiveObject cv = Some act"
  then have ar: "act \<in> set rest" using h(9) by (simp add: getActiveObject_def)
  then have ain: "act \<in> set (objects cv)" using h(2) by simp
  have d: "deleteSelectedSticker ?s =
       ?s\<lparr>canvasRef := Some (canvas_remove act cv), selectedSticker := False\<rparr>"
    using h(1,4) a by (simp add: deleteSelectedSticker_def)
  have o: "objects (canvas_remove act cv) = remove1 act (objects cv)"
    and g: "activeObject (canvas_remove act cv) = None"
    using ain a by (simp_all add: canvas_remove_def getActiveObject_def)
  have l: "Suc (length (remove1 act (objects cv))) = length (objects cv)"
    using ain by (simp add: length_remove1) (cases "objects cv", simp_all)
  have n: "act \<notin> set (remove1 act (objects cv))"
    using h(2,7) by (metis distinct_remove1 set_remove1_eq DiffE insertI1)
  show "\<exists>cv'. canvasRef (deleteSelectedSticker ?s) = Some cv' \<and>
             overlay ?s act \<and>
             getObjects cv' = remove1 act (getObjects cv) \<and>
             Suc (length (getObjects cv')) = length (getObjects cv) \<and>
             act \<notin> set (getObjects cv') \<and>
             getActiveObject cv' = None \<and>
             \<not> selectedSticker (deleteSelectedSticker ?s)"
    using d o g l n ar h(6) by (simp add: getObjects_def getActiveObject_def)
qed


section \<open>Placement with a failed load\<close>

text \<open>
  C8: on a failed load the library still calls the callback, with no elements, and the
  callback has no failure branch. On the initialised surface, where nothing is selected
  and the base image is the only element, a failed placement adds an empty group scaled
  by 100 / 0, makes it the active object, sets \<open>selectedSticker\<close>, and writes nothing to
  the console.
\<close>

theorem addSticker_failed_load_adds_element:
  "map_option getObjects (canvasRef (initCanvas 2048 1536)) = Some [0] \<and>
   map_option getActiveObject (canvasRef (initCanvas 2048 1536)) = Some None \<and>
   selectedSticker (initCanvas 2048 1536) = False \<and>
   map_option getObjects (canvasRef (addSticker SvgFailed (initCanvas 2048 1536))) =
     Some [0, 1] \<and>
   map_option getActiveObject (canvasRef (addSticker SvgFailed (initCanvas 2048 1536))) =
     Some (Some 1) \<and>
   selectedSticker (addSticker SvgFailed (initCanvas 2048 1536)) = True \<and>
   map_option owidth (heap (addSticker SvgFailed (initCanvas 2048 1536)) 1) = Some 0 \<and>
   map_option scaleX (heap (addSticker SvgFailed (initCanvas 2048 1536)) 1) =
     Some PosInfinity \<and>
   console (addSticker SvgFailed (initCanvas 2048 1536)) = []"
  by (simp add: addSticker_def addSticker_loaded_def initCanvas_state Let_def
      setActiveObject_def canvas_add_def newCanvas_def getObjects_def getActiveObject_def
      groupSVGElements_def newObject_def jsdiv_def)

text \<open>No placement, failed or not, writes to the console.\<close>

lemma addSticker_console: "console (addSticker r s) = console s"
  by (simp add: addSticker_def addSticker_loaded_def Let_def split: option.splits)

end
